theory Spec2Isabelle
  imports Main "HOL-Library.Sublist"
begin

section \<open>AI Flashcard Distiller: placement, sanitation and commit\<close>

text \<open>
  A shallow embedding of the plugin class \<open>AIFlashcardDistillerPlugin\<close>. The sources hold
  three revisions of the class; they differ in the default prompt text and in one step of
  \<open>generateFlashcards\<close>: the first revision in \<open>main.ts\<close> has no removal of an echoed bare
  tag, the other two have it. The default prompt and the revision are parameters of the
  embedding; every other modelled function is the same in all three.

  A JavaScript string is modelled as a \<open>string\<close>, one \<open>char\<close> per UTF-16 code unit, which
  covers the strings whose code units are below 256.
\<close>

subsection \<open>String primitives of the host language\<close>

text \<open>\<open>s.startsWith(p)\<close>.\<close>

definition startsWith :: "string \<Rightarrow> string \<Rightarrow> bool" where
  "startsWith s p = prefix p s"

text \<open>
  White space as \<open>String.prototype.trim\<close> and the regular expression class \<open>\s\<close> read it:
  TAB, LF, VT, FF, CR, SPACE and NBSP are the white-space code units below 256.
\<close>

definition is_space :: "char \<Rightarrow> bool" where
  "is_space c = (c \<in> set [CHR 0x09, CHR 0x0A, CHR 0x0B, CHR 0x0C, CHR 0x0D, CHR 0x20, CHR 0xA0])"

text \<open>\<open>s.trim()\<close>: white space removed at both ends.\<close>

definition trim :: "string \<Rightarrow> string" where
  "trim s = rev (dropWhile is_space (rev (dropWhile is_space s)))"

text \<open>\<open>s.replace(/\/$/, "")\<close>: one slash at the very end of the string is removed.\<close>

definition strip_trailing_slash :: "string \<Rightarrow> string" where
  "strip_trailing_slash s = (if suffix ''/'' s then take (length s - 1) s else s)"

text \<open>\<open>s.replace(/\.md$/, "")\<close>: the three characters \<open>.md\<close> at the very end are removed.\<close>

definition strip_md :: "string \<Rightarrow> string" where
  "strip_md s = (if suffix ''.md'' s then take (length s - 3) s else s)"

text \<open>
  \<open>s.split("/")\<close> and \<open>xs.join("/")\<close>. The split of any string has at least one segment
  (the empty string splits into one empty segment).
\<close>

fun split_slash :: "string \<Rightarrow> string list" where
  "split_slash [] = [[]]"
| "split_slash (c # cs) =
     (if c = CHR ''/'' then [] # split_slash cs
      else (case split_slash cs of
              [] \<Rightarrow> [[c]]
            | seg # segs \<Rightarrow> (c # seg) # segs))"

fun join_slash :: "string list \<Rightarrow> string" where
  "join_slash [] = []"
| "join_slash [x] = x"
| "join_slash (x # y # zs) = x @ ''/'' @ join_slash (y # zs)"

subsection \<open>Settings and files\<close>

record Settings =
  flashcardRoot :: string
  flashcardTag :: string
  selectedProviderId :: string
  systemPrompt :: string
  excludedFolders :: "string list"
  fileHeader :: string

text \<open>
  \<open>DEFAULT_SETTINGS\<close>. The three copies of the source differ in the default prompt text,
  which is taken as a parameter here.
\<close>

definition DEFAULT_SETTINGS :: "string \<Rightarrow> Settings" where
  "DEFAULT_SETTINGS prompt =
     \<lparr> flashcardRoot = ''Flashcards'',
       flashcardTag = ''flashcards'',
       selectedProviderId = [],
       systemPrompt = prompt,
       excludedFolders = [''Templates''],
       fileHeader = [] \<rparr>"

text \<open>The host's \<open>TFile\<close>, with the fields the plugin reads.\<close>

record TFile =
  path :: string
  basename :: string
  extension :: string

subsection \<open>Placement: the skip decision\<close>

text \<open>
  \<open>shouldSkipFile\<close>: the file is the output root or below it, or it is one of the excluded
  folders or below one (\<open>Array.prototype.some\<close> is \<open>list_ex\<close>).
\<close>

definition shouldSkipFile :: "Settings \<Rightarrow> TFile \<Rightarrow> bool" where
  "shouldSkipFile settings file =
     (let root = strip_trailing_slash (flashcardRoot settings) in
      if startsWith (path file) (root @ ''/'') \<or> path file = root then True
      else list_ex (\<lambda>folder.
             let clean = strip_trailing_slash folder in
             path file = clean \<or> startsWith (path file) (clean @ ''/''))
           (excludedFolders settings))"

subsection \<open>Sanitation of the response text\<close>

text \<open>
  The regular expression \<open>/^<think>[\s\S]*?<\/think>\s*/i\<close>, used by
  \<open>text.replace(..., "")\<close>. The flag \<open>i\<close> lets a pattern letter match its upper-case and
  lower-case form; no code unit above 127 matches an ASCII pattern character.
\<close>

definition canonicalize :: "char \<Rightarrow> char" where
  "canonicalize c =
     (case map_of (zip ''abcdefghijklmnopqrstuvwxyz'' ''ABCDEFGHIJKLMNOPQRSTUVWXYZ'') c of
        Some u \<Rightarrow> u
      | None \<Rightarrow> c)"

text \<open>
  \<open>match_ci pat s\<close>: the literal \<open>pat\<close> matched at the start of \<open>s\<close> without regard to
  case; the result is the rest of \<open>s\<close>.
\<close>

fun match_ci :: "string \<Rightarrow> string \<Rightarrow> string option" where
  "match_ci [] s = Some s"
| "match_ci (p # ps) [] = None"
| "match_ci (p # ps) (c # cs) =
     (if canonicalize p = canonicalize c then match_ci ps cs else None)"

text \<open>
  \<open>[\s\S]*?<\/think>\<close>: the lazy quantifier takes as few characters as it can, so the
  match ends with the first closing tag; the result is the text after that tag.
\<close>

fun after_first_close :: "string \<Rightarrow> string option" where
  "after_first_close [] = None"
| "after_first_close (c # cs) =
     (case match_ci ''</think>'' (c # cs) of
        Some r \<Rightarrow> Some r
      | None \<Rightarrow> after_first_close cs)"

text \<open>
  The whole replacement: the pattern is anchored at the start of the text, and \<open>\s*\<close>
  takes all the white space after the closing tag. A text the pattern does not match is
  left as it is.
\<close>

definition strip_think :: "string \<Rightarrow> string" where
  "strip_think s =
     (case match_ci ''<think>'' s of
        None \<Rightarrow> s
      | Some r \<Rightarrow>
          (case after_first_close r of
             None \<Rightarrow> s
           | Some t \<Rightarrow> dropWhile is_space t))"

text \<open>
  The revisions of the source. The first copy of the class in \<open>main.ts\<close> is
  \<open>Without_tag_step\<close>; the second copy in \<open>main.ts\<close> and the third source file are
  \<open>With_tag_step\<close>.
\<close>

datatype revision = Without_tag_step | With_tag_step

text \<open>
  The cleaning steps of \<open>generateFlashcards\<close>. Without the tag step:
  \<^verbatim>\<open>
  const clean = text.replace(/^<think>[\s\S]*?<\/think>\s*/i, "").trim();
  \<close>
  With the tag step:
  \<^verbatim>\<open>
  let clean = text.replace(/^<think>[\s\S]*?<\/think>\s*/i, "").trim();
  const baseTag = `#${this.settings.flashcardTag}`;
  if (clean.startsWith(baseTag)) {
      clean = clean.substring(baseTag.length).trim();
  }
  \<close>
\<close>

definition sanitize :: "revision \<Rightarrow> Settings \<Rightarrow> string \<Rightarrow> string" where
  "sanitize rv settings text =
     (let clean = trim (strip_think text) in
      case rv of
        Without_tag_step \<Rightarrow> clean
      | With_tag_step \<Rightarrow>
          (let baseTag = ''#'' @ flashcardTag settings
           in if startsWith clean baseTag then trim (drop (length baseTag) clean)
              else clean))"

text \<open>
  The specification's wording of the cleaning, for comparison: a greedy removal of the
  leading reasoning block, which runs to the last closing tag of the text, with the white
  space after it; then the removal of a leading bare tag; then a trim.
\<close>

fun after_last_close :: "string \<Rightarrow> string option" where
  "after_last_close [] = None"
| "after_last_close (c # cs) =
     (case after_last_close cs of
        Some r \<Rightarrow> Some r
      | None \<Rightarrow> match_ci ''</think>'' (c # cs))"

definition strip_think_greedy :: "string \<Rightarrow> string" where
  "strip_think_greedy s =
     (case match_ci ''<think>'' s of
        None \<Rightarrow> s
      | Some r \<Rightarrow>
          (case after_last_close r of
             None \<Rightarrow> s
           | Some t \<Rightarrow> dropWhile is_space t))"

definition sanitize_spec :: "Settings \<Rightarrow> string \<Rightarrow> string" where
  "sanitize_spec settings text =
     (let unthought = strip_think_greedy text;
          baseTag = ''#'' @ flashcardTag settings
      in trim (if startsWith unthought baseTag then drop (length baseTag) unthought
               else unthought))"

subsection \<open>Extraction of the response text\<close>

text \<open>
  The value an \<open>any\<close>-typed result can hold. Numbers are the integers; an object is the
  list of its properties.
\<close>

datatype jsval =
    JUndefined
  | JNull
  | JBoolean bool
  | JNumber int
  | JString string
  | JObject "(string \<times> jsval) list"

text \<open>Truthiness, as \<open>if (v)\<close>, \<open>a || b\<close> and \<open>v ? x : y\<close> read a value.\<close>

fun truthy :: "jsval \<Rightarrow> bool" where
  "truthy JUndefined = False"
| "truthy JNull = False"
| "truthy (JBoolean b) = b"
| "truthy (JNumber n) = (n \<noteq> 0)"
| "truthy (JString s) = (s \<noteq> [])"
| "truthy (JObject ps) = True"

text \<open>\<open>a || b\<close>.\<close>

definition js_or :: "jsval \<Rightarrow> jsval \<Rightarrow> jsval" where
  "js_or a b = (if truthy a then a else b)"

text \<open>\<open>raw.name\<close> on an object: a property that is not there reads as \<open>undefined\<close>.\<close>

definition get_prop :: "(string \<times> jsval) list \<Rightarrow> string \<Rightarrow> jsval" where
  "get_prop ps name = (case map_of ps name of None \<Rightarrow> JUndefined | Some v \<Rightarrow> v)"

text \<open>
  \<open>extractResponseText\<close>. The built-ins \<open>JSON.stringify(raw, null, 2)\<close> and \<open>String(raw)\<close>
  are the parameters \<open>stringify\<close> and \<open>toStr\<close>; \<open>null\<close> is \<open>None\<close>.
\<close>

definition extractResponseText ::
  "(jsval \<Rightarrow> string) \<Rightarrow> (jsval \<Rightarrow> string) \<Rightarrow> jsval \<Rightarrow> string \<Rightarrow> string option" where
  "extractResponseText stringify toStr raw accumulated =
     (if (case raw of JString s \<Rightarrow> length s > 0 | _ \<Rightarrow> False)
      then (case raw of JString s \<Rightarrow> Some s | _ \<Rightarrow> None)
      else if length accumulated > 0 then Some accumulated
      else (case raw of
              JObject ps \<Rightarrow>
                (let text = js_or (get_prop ps ''text'')
                           (js_or (get_prop ps ''content'')
                           (js_or (get_prop ps ''message'')
                           (js_or (get_prop ps ''response'')
                           (js_or (get_prop ps ''data'') (get_prop ps ''result'')))))
                 in (case text of
                       JString t \<Rightarrow> Some t
                     | _ \<Rightarrow> Some (stringify raw)))
            | _ \<Rightarrow> (if truthy raw then Some (toStr raw) else None)))"

text \<open>
  The specification's wording of the same precedence, for comparison: the first non-empty
  string among the probed fields, a dump for an object without one, the stringification
  of any other value that is not null, else null.
\<close>

definition probe_fields :: "string list" where
  "probe_fields = [''text'', ''content'', ''message'', ''response'', ''data'', ''result'']"

definition nonempty_string :: "jsval \<Rightarrow> bool" where
  "nonempty_string v = (case v of JString s \<Rightarrow> s \<noteq> [] | _ \<Rightarrow> False)"

definition extract_spec ::
  "(jsval \<Rightarrow> string) \<Rightarrow> (jsval \<Rightarrow> string) \<Rightarrow> jsval \<Rightarrow> string \<Rightarrow> string option" where
  "extract_spec stringify toStr raw accumulated =
     (if nonempty_string raw then (case raw of JString s \<Rightarrow> Some s | _ \<Rightarrow> None)
      else if accumulated \<noteq> [] then Some accumulated
      else (case raw of
              JObject ps \<Rightarrow>
                (case find nonempty_string (map (get_prop ps) probe_fields) of
                   Some (JString t) \<Rightarrow> Some t
                 | _ \<Rightarrow> Some (stringify raw))
            | JNull \<Rightarrow> None
            | JUndefined \<Rightarrow> None
            | _ \<Rightarrow> Some (toStr raw)))"

subsection \<open>The host: content store and generation service\<close>

text \<open>
  The plugin runs against two collaborators it does not implement: the document store of
  the host application and the generation service. Both are parameters of the model. The
  state of the store is a value of the type \<open>'w\<close>; an operation that can reject returns an
  error of the type \<open>'e\<close>. A file handle is identified by its path, so an operation on a
  handle takes the path.
\<close>

text \<open>What \<open>getAbstractFileByPath\<close> can find: a \<open>TFile\<close> or a folder.\<close>

datatype abstract_file = IsFile | IsFolder

record IAIProvider =
  provider_id :: string
  provider_name :: string

text \<open>
  The service: its providers, the id of its main provider when it has one
  (\<open>plugin?.settings?.aiProviders?.main\<close>), and \<open>execute\<close>, which answers a prompt with the
  totals it passed to \<open>onProgress\<close>, in order, and with its result or its rejection.
\<close>

record 'e IAIProvidersService =
  providers :: "IAIProvider list"
  main :: "string option"
  execute :: "IAIProvider \<Rightarrow> string \<Rightarrow> string list \<times> ('e + jsval)"

record ('w, 'e) Host =
  vault_read :: "'w \<Rightarrow> string \<Rightarrow> 'e + string"
  adapter_exists :: "'w \<Rightarrow> string \<Rightarrow> 'e + bool"
  vault_createFolder :: "'w \<Rightarrow> string \<Rightarrow> 'e option \<times> 'w"
  vault_getAbstractFileByPath :: "'w \<Rightarrow> string \<Rightarrow> abstract_file option"
  vault_modify :: "'w \<Rightarrow> string \<Rightarrow> string \<Rightarrow> 'e option \<times> 'w"
  vault_create :: "'w \<Rightarrow> string \<Rightarrow> string \<Rightarrow> 'e option \<times> 'w"
  app_aiProviders :: "'e IAIProvidersService option"
  waitForAI :: "'e + 'e IAIProvidersService"
  JSON_stringify :: "jsval \<Rightarrow> string"
  String_of :: "jsval \<Rightarrow> string"

text \<open>The line break pair \<open>"\n\n"\<close>.\<close>

abbreviation nl2 :: string where
  "nl2 \<equiv> [CHR 0x0A, CHR 0x0A]"

text \<open>\<open>getAIProviders\<close>: the service of the application, else the awaited one, else null.\<close>

definition getAIProviders :: "('w, 'e) Host \<Rightarrow> 'e IAIProvidersService option" where
  "getAIProviders h =
     (case app_aiProviders h of
        Some ai \<Rightarrow> Some ai
      | None \<Rightarrow> (case waitForAI h of Inl err \<Rightarrow> None | Inr ai \<Rightarrow> Some ai))"

text \<open>\<open>selectProvider\<close>: the configured provider, else the main one, else the first.\<close>

definition selectProvider :: "Settings \<Rightarrow> 'e IAIProvidersService \<Rightarrow> IAIProvider option" where
  "selectProvider settings ai =
     (case (if selectedProviderId settings \<noteq> []
            then find (\<lambda>p. provider_id p = selectedProviderId settings) (providers ai)
            else None) of
        Some found \<Rightarrow> Some found
      | None \<Rightarrow>
          (case (case main ai of
                   None \<Rightarrow> None
                 | Some mainId \<Rightarrow>
                     if mainId \<noteq> [] then find (\<lambda>p. provider_id p = mainId) (providers ai)
                     else None) of
             Some found \<Rightarrow> Some found
           | None \<Rightarrow> (case providers ai of [] \<Rightarrow> None | p # ps \<Rightarrow> Some p)))"

subsection \<open>The commit step\<close>

text \<open>
  \<open>saveFlashcards\<close>. The result is the rejection, if any, and the state of the store. A
  rejection of \<open>adapter.exists\<close>, \<open>modify\<close> or \<open>create\<close> leaves the function; the rejection
  of \<open>createFolder\<close> is dropped by \<open>.catch(() => { })\<close>.
\<close>

definition saveFlashcards ::
  "('w, 'e) Host \<Rightarrow> Settings \<Rightarrow> TFile \<Rightarrow> string \<Rightarrow> 'w \<Rightarrow> 'e option \<times> 'w" where
  "saveFlashcards h settings original content w =
     (let root = strip_trailing_slash (flashcardRoot settings);
          targetPath = root @ ''/'' @ path original;
          folderPath = join_slash (butlast (split_slash targetPath))
      in case (if folderPath = [] then Inr w
               else (case adapter_exists h w folderPath of
                       Inl err \<Rightarrow> Inl err
                     | Inr True \<Rightarrow> Inr w
                     | Inr False \<Rightarrow> Inr (snd (vault_createFolder h w folderPath)))) of
           Inl err \<Rightarrow> (Some err, w)
         | Inr w1 \<Rightarrow>
             (let tag = ''#'' @ flashcardTag settings @ ''/'' @ strip_md (path original);
                  textToSave = tag @ nl2;
                  textToSave' = (if trim (fileHeader settings) \<noteq> []
                                 then textToSave @ trim (fileHeader settings) @ nl2
                                 else textToSave);
                  finalContent = textToSave' @ content
              in case vault_getAbstractFileByPath h w1 targetPath of
                   Some IsFile \<Rightarrow> vault_modify h w1 targetPath finalContent
                 | _ \<Rightarrow> vault_create h w1 targetPath finalContent))"

subsection \<open>The pipeline\<close>

text \<open>
  The terminal states of one invocation. The source reports each by a notice and returns:
  \<^item> \<open>Skipped ExcludedOrRoot\<close>: "File is in an excluded folder or flashcard root";
  \<^item> \<open>Skipped EmptyOrAlreadyFlashcard\<close>: "Skipping: empty or already a flashcard note";
  \<^item> \<open>Failed ProviderUnavailable\<close>: "AI Providers plugin not available";
  \<^item> \<open>Failed NoProvider\<close>: "No AI provider available";
  \<^item> \<open>Failed EmptyResponse\<close>: "Nothing distilled ... (empty response)";
  \<^item> \<open>Failed EmptyAfterSanitize\<close>: "No flashcards left after cleaning ...";
  \<^item> \<open>Failed (Exception err)\<close>: the \<open>catch\<close> block, "Failed to distill flashcards: ...";
  \<^item> \<open>Done\<close>: "Flashcards distilled".
\<close>

datatype skip_reason = ExcludedOrRoot | EmptyOrAlreadyFlashcard

datatype 'e failure =
    ProviderUnavailable
  | NoProvider
  | EmptyResponse
  | EmptyAfterSanitize
  | Exception 'e

datatype 'e outcome = Skipped skip_reason | Failed "'e failure" | Done

text \<open>
  \<open>generateFlashcards\<close>, in the given revision. The result is the terminal state, the
  prompts submitted to the generation service, and the state of the store.
\<close>

definition generateFlashcards ::
  "revision \<Rightarrow> ('w, 'e) Host \<Rightarrow> Settings \<Rightarrow> TFile \<Rightarrow> 'w
     \<Rightarrow> 'e outcome \<times> string list \<times> 'w" where
  "generateFlashcards rv h settings file w =
     (if shouldSkipFile settings file then (Skipped ExcludedOrRoot, [], w)
      else
        (case vault_read h w (path file) of
           Inl err \<Rightarrow> (Failed (Exception err), [], w)
         | Inr content \<Rightarrow>
             (let tagPrefix = ''#'' @ flashcardTag settings @ ''/'' in
              if trim content = [] \<or> startsWith (trim content) tagPrefix
              then (Skipped EmptyOrAlreadyFlashcard, [], w)
              else
                (case getAIProviders h of
                   None \<Rightarrow> (Failed ProviderUnavailable, [], w)
                 | Some ai \<Rightarrow>
                     (case selectProvider settings ai of
                        None \<Rightarrow> (Failed NoProvider, [], w)
                      | Some provider \<Rightarrow>
                          (let fullPrompt = systemPrompt settings @ nl2 @ content in
                           case execute ai provider fullPrompt of
                             (totals, Inl err) \<Rightarrow> (Failed (Exception err), [fullPrompt], w)
                           | (totals, Inr result) \<Rightarrow>
                               (let accumulatedText = (if totals = [] then [] else last totals) in
                                case extractResponseText (JSON_stringify h) (String_of h)
                                       result accumulatedText of
                                  None \<Rightarrow> (Failed EmptyResponse, [fullPrompt], w)
                                | Some text \<Rightarrow>
                                    if trim text = [] then (Failed EmptyResponse, [fullPrompt], w)
                                    else
                                      (let clean = sanitize rv settings text in
                                       if clean = []
                                       then (Failed EmptyAfterSanitize, [fullPrompt], w)
                                       else
                                         (case saveFlashcards h settings file clean w of
                                            (Some err, w') \<Rightarrow>
                                              (Failed (Exception err), [fullPrompt], w')
                                          | (None, w') \<Rightarrow> (Done, [fullPrompt], w'))))))))))"

subsection \<open>The contract of the content store, and a store in memory\<close>

text \<open>
  What the plugin relies on when it writes: after a \<open>modify\<close> or a \<open>create\<close> that did not
  reject, reading the same path gives the text that was written.
\<close>

definition store_contract :: "('w, 'e) Host \<Rightarrow> bool" where
  "store_contract h =
     (\<forall>w p c w'.
        (vault_modify h w p c = (None, w') \<longrightarrow> vault_read h w' p = Inr c) \<and>
        (vault_create h w p c = (None, w') \<longrightarrow> vault_read h w' p = Inr c))"

text \<open>
  A content store in memory, used to run the scenarios: a map from paths to files and
  folders. Its operations check the entry at the path only. The scenarios do not reach
  the two built-ins, which give the empty string here.
\<close>

datatype node = File string | Folder

datatype fs_error = AlreadyExists | NotFound | PermissionDenied

type_synonym store = "string \<Rightarrow> node option"

definition mem_host :: "fs_error IAIProvidersService option \<Rightarrow> (store, fs_error) Host" where
  "mem_host ai =
     \<lparr> vault_read = (\<lambda>w p. case w p of Some (File c) \<Rightarrow> Inr c | _ \<Rightarrow> Inl NotFound),
       adapter_exists = (\<lambda>w p. Inr (w p \<noteq> None)),
       vault_createFolder = (\<lambda>w p. if w p \<noteq> None then (Some AlreadyExists, w)
                                     else (None, w(p \<mapsto> Folder))),
       vault_getAbstractFileByPath =
         (\<lambda>w p. case w p of
                   None \<Rightarrow> None
                 | Some (File c) \<Rightarrow> Some IsFile
                 | Some Folder \<Rightarrow> Some IsFolder),
       vault_modify = (\<lambda>w p c. case w p of
                                  Some (File old) \<Rightarrow> (None, w(p \<mapsto> File c))
                                | _ \<Rightarrow> (Some NotFound, w)),
       vault_create = (\<lambda>w p c. if w p \<noteq> None then (Some AlreadyExists, w)
                                else (None, w(p \<mapsto> File c))),
       app_aiProviders = ai,
       waitForAI = Inl NotFound,
       JSON_stringify = (\<lambda>v. []),
       String_of = (\<lambda>v. []) \<rparr>"

text \<open>The same store, except that every folder creation is rejected for lack of permission.\<close>

definition denying_host :: "fs_error IAIProvidersService option \<Rightarrow> (store, fs_error) Host" where
  "denying_host ai = (mem_host ai) \<lparr> vault_createFolder := (\<lambda>w p. (Some PermissionDenied, w)) \<rparr>"

text \<open>
  A generation service with one provider that answers every prompt with the given totals
  and result.
\<close>

definition fixed_service ::
  "string list \<Rightarrow> jsval \<Rightarrow> fs_error IAIProvidersService" where
  "fixed_service totals result =
     \<lparr> providers = [\<lparr> provider_id = ''p1'', provider_name = ''Provider'' \<rparr>],
       main = None,
       execute = (\<lambda>provider prompt. (totals, Inr result)) \<rparr>"

text \<open>
  A store that records the calls that change it. Its state is the list of the calls made
  so far; what it answers to each call is a parameter: the text of a note, whether a path
  exists, what is found at a path, and whether a changing call is rejected.
\<close>

datatype store_call =
    CreateFolder string
  | Modify string string
  | Create string string

definition recording_host ::
  "(string \<Rightarrow> fs_error + string) \<Rightarrow> (string \<Rightarrow> fs_error + bool)
     \<Rightarrow> (string \<Rightarrow> abstract_file option) \<Rightarrow> (store_call \<Rightarrow> fs_error option)
     \<Rightarrow> fs_error IAIProvidersService option \<Rightarrow> (store_call list, fs_error) Host" where
  "recording_host rd ex look rej ai =
     \<lparr> vault_read = (\<lambda>log p. rd p),
       adapter_exists = (\<lambda>log p. ex p),
       vault_createFolder = (\<lambda>log p. (rej (CreateFolder p), log @ [CreateFolder p])),
       vault_getAbstractFileByPath = (\<lambda>log p. look p),
       vault_modify = (\<lambda>log p c. (rej (Modify p c), log @ [Modify p c])),
       vault_create = (\<lambda>log p c. (rej (Create p c), log @ [Create p c])),
       app_aiProviders = ai,
       waitForAI = Inl NotFound,
       JSON_stringify = (\<lambda>v. []),
       String_of = (\<lambda>v. []) \<rparr>"

text \<open>The file writes among recorded calls: path and text of each, in order.\<close>

fun written :: "store_call list \<Rightarrow> (string \<times> string) list" where
  "written [] = []"
| "written (CreateFolder p # calls) = written calls"
| "written (Modify p c # calls) = (p, c) # written calls"
| "written (Create p c # calls) = (p, c) # written calls"

subsection \<open>Scenario data\<close>

text \<open>
  The note \<open>Books/Fables.md\<close>, a store that holds it, and the same store with an artifact
  of an earlier run at the destination.
\<close>

definition fables :: TFile where
  "fables = \<lparr> path = ''Books/Fables.md'', basename = ''Fables'', extension = ''md'' \<rparr>"

definition vault0 :: store where
  "vault0 = Map.empty (''Books/Fables.md'' \<mapsto> File ''The fox and the grapes.'')"

definition vault_old :: store where
  "vault_old =
     vault0 (''Flashcards/Books'' \<mapsto> Folder,
             ''Flashcards/Books/Fables.md'' \<mapsto>
               File (''#flashcards/Books/Fables'' @ nl2 @ ''Old :: Card''))"

text \<open>
  The store after a run that answered \<open>Front :: Back\<close>, and the host whose generation
  service gives a fixed answer without streaming.
\<close>

definition vault_new :: store where
  "vault_new =
     vault_old (''Flashcards/Books/Fables.md'' \<mapsto>
                  File (''#flashcards/Books/Fables'' @ nl2 @ ''Front :: Back''))"

definition answering_host :: "jsval \<Rightarrow> (store, fs_error) Host" where
  "answering_host result = mem_host (Some (fixed_service [] result))"

text \<open>
  A recording store on which nothing exists yet: every note reads as the fable, and the
  generation service answers \<open>Front :: Back\<close>.
\<close>

definition fresh_recorder ::
  "(store_call \<Rightarrow> fs_error option) \<Rightarrow> (store_call list, fs_error) Host" where
  "fresh_recorder rej =
     recording_host (\<lambda>p. Inr ''The fox and the grapes.'') (\<lambda>p. Inr False) (\<lambda>p. None) rej
       (Some (fixed_service [] (JString ''Front :: Back'')))"

section \<open>Properties\<close>

subsection \<open>Splitting and joining paths\<close>

lemma split_slash_nonempty: "split_slash s \<noteq> []"
  by (induction s) (auto split: list.splits)

lemma split_slash_append: "split_slash (a @ CHR ''/'' # b) = split_slash a @ split_slash b"
proof (induction a)
  case Nil
  show ?case by simp
next
  case (Cons c a)
  obtain seg segs where s: "split_slash a = seg # segs"
    using split_slash_nonempty [of a] by (cases "split_slash a") auto
  show ?case using Cons s by simp
qed

lemma join_slash_Cons_Cons: "join_slash ((c # seg) # segs) = c # join_slash (seg # segs)"
  by (cases segs) auto

lemma join_split_slash: "join_slash (split_slash s) = s"
proof (induction s)
  case Nil
  show ?case by simp
next
  case (Cons c cs)
  obtain seg segs where s: "split_slash cs = seg # segs"
    using split_slash_nonempty [of cs] by (cases "split_slash cs") auto
  show ?case
  proof (cases "c = CHR ''/''")
    case True
    then show ?thesis using Cons s by simp
  next
    case False
    then show ?thesis using Cons s by (simp add: join_slash_Cons_Cons)
  qed
qed

lemma join_slash_append:
  "xs \<noteq> [] \<Longrightarrow> ys \<noteq> [] \<Longrightarrow> join_slash (xs @ ys) = join_slash xs @ ''/'' @ join_slash ys"
proof (induction xs rule: join_slash.induct)
  case 1
  then show ?case by simp
next
  case (2 x)
  then show ?case by (cases ys) auto
next
  case (3 x y zs)
  then show ?case by simp
qed

text \<open>
  The test \<open>p === r || p.startsWith(r + "/")\<close> holds exactly when the segments of \<open>r\<close> are
  the first segments of \<open>p\<close>.
\<close>

lemma segment_prefix_iff:
  "prefix (split_slash r) (split_slash p) \<longleftrightarrow> p = r \<or> startsWith p (r @ ''/'')"
proof
  assume "prefix (split_slash r) (split_slash p)"
  then obtain zs where zs: "split_slash p = split_slash r @ zs"
    by (auto simp: prefix_def)
  show "p = r \<or> startsWith p (r @ ''/'')"
  proof (cases zs)
    case Nil
    with zs have "join_slash (split_slash p) = join_slash (split_slash r)" by simp
    then show ?thesis by (simp add: join_split_slash)
  next
    case (Cons z zs')
    have "join_slash (split_slash p) = join_slash (split_slash r) @ ''/'' @ join_slash zs"
      unfolding zs using Cons by (intro join_slash_append) (simp_all add: split_slash_nonempty)
    then have "p = r @ ''/'' @ join_slash zs" by (simp add: join_split_slash)
    then show ?thesis by (auto simp: startsWith_def prefix_def)
  qed
next
  assume "p = r \<or> startsWith p (r @ ''/'')"
  then show "prefix (split_slash r) (split_slash p)"
  proof
    assume "p = r" then show ?thesis by simp
  next
    assume "startsWith p (r @ ''/'')"
    then obtain rest where "p = r @ CHR ''/'' # rest"
      by (auto simp: startsWith_def prefix_def)
    then show ?thesis by (simp add: split_slash_append)
  qed
qed

text \<open>
  The folder path \<open>targetPath.split("/").slice(0, -1).join("/")\<close>, when it is not empty,
  is the target path without its last slash and last segment.
\<close>

lemma folder_shorter:
  assumes "join_slash (butlast (split_slash t)) \<noteq> []"
  shows "\<exists>base. t = join_slash (butlast (split_slash t)) @ ''/'' @ base"
proof -
  from assms have ne: "butlast (split_slash t) \<noteq> []" by auto
  have "t = join_slash (butlast (split_slash t) @ [last (split_slash t)])"
    by (simp add: split_slash_nonempty join_split_slash)
  also have "\<dots> = join_slash (butlast (split_slash t)) @ ''/'' @ join_slash [last (split_slash t)]"
    using ne by (intro join_slash_append) simp_all
  finally show ?thesis by auto
qed

lemma folder_neq_target:
  "join_slash (butlast (split_slash t)) \<noteq> [] \<Longrightarrow> join_slash (butlast (split_slash t)) \<noteq> t"
  using folder_shorter [of t] by (metis append_Cons append_self_conv list.distinct(1))

subsection \<open>The skip decision\<close>

text \<open>
  Claim C1, as stated: \<open>shouldSkipFile\<close> is true if and only if the path is the output root
  or starts with the root and a slash. With the default settings the note
  \<open>Templates/Daily.md\<close> is skipped, and it is neither the root \<open>Flashcards\<close> nor below it:
  the excluded folders are a second ground for skipping.
\<close>

theorem shouldSkipFile_root_only_counterexample:
  "shouldSkipFile (DEFAULT_SETTINGS [])
     \<lparr> path = ''Templates/Daily.md'', basename = ''Daily'', extension = ''md'' \<rparr>
   \<and> \<not> (''Templates/Daily.md'' = strip_trailing_slash ''Flashcards''
          \<or> startsWith ''Templates/Daily.md'' (strip_trailing_slash ''Flashcards'' @ ''/''))"
  by (simp add: shouldSkipFile_def DEFAULT_SETTINGS_def strip_trailing_slash_def
        startsWith_def suffix_to_prefix)

text \<open>
  Claim C1, amended: \<open>shouldSkipFile\<close> is true if and only if the path is the output root
  or starts with the root and a slash, or it is an excluded folder or starts with an
  excluded folder and a slash; one slash at the end of the root and of each excluded
  folder is removed before the comparison.
\<close>

theorem shouldSkipFile_iff_root_or_excluded:
  "shouldSkipFile s f \<longleftrightarrow>
     (path f = strip_trailing_slash (flashcardRoot s)
        \<or> startsWith (path f) (strip_trailing_slash (flashcardRoot s) @ ''/''))
     \<or> (\<exists>folder \<in> set (excludedFolders s).
           path f = strip_trailing_slash folder
             \<or> startsWith (path f) (strip_trailing_slash folder @ ''/''))"
  by (auto simp: shouldSkipFile_def Let_def list_ex_iff)

theorem shouldSkipFile_iff_root_or_excluded_witness:
  "shouldSkipFile (DEFAULT_SETTINGS [] \<lparr> flashcardRoot := ''Flashcards/'' \<rparr>)
     \<lparr> path = ''Flashcards/Books/Fables.md'', basename = ''Fables'', extension = ''md'' \<rparr>
   \<and> \<not> shouldSkipFile (DEFAULT_SETTINGS [])
     \<lparr> path = ''Books/Fables.md'', basename = ''Fables'', extension = ''md'' \<rparr>"
  using shouldSkipFile_iff_root_or_excluded
          [of "DEFAULT_SETTINGS [] \<lparr> flashcardRoot := ''Flashcards/'' \<rparr>"
              "\<lparr> path = ''Flashcards/Books/Fables.md'', basename = ''Fables'',
                 extension = ''md'' \<rparr>"]
        shouldSkipFile_iff_root_or_excluded
          [of "DEFAULT_SETTINGS []"
              "\<lparr> path = ''Books/Fables.md'', basename = ''Fables'', extension = ''md'' \<rparr>"]
  by (simp add: DEFAULT_SETTINGS_def strip_trailing_slash_def startsWith_def suffix_to_prefix)

text \<open>
  Claim C8: the nesting test compares whole path segments. The skip decision holds exactly
  when the segments of the output root, or of an excluded folder, are the first segments
  of the path; and a path that continues the name of the root with a character other than
  the slash (\<open>Flashcards2/...\<close> for the root \<open>Flashcards\<close>) is not skipped on the ground of
  the root.
\<close>

theorem shouldSkipFile_segment_prefix:
  "(shouldSkipFile s f \<longleftrightarrow>
      list_ex (\<lambda>r. prefix (split_slash (strip_trailing_slash r)) (split_slash (path f)))
        (flashcardRoot s # excludedFolders s))
   \<and> (\<forall>c rest. c \<noteq> CHR ''/'' \<and> excludedFolders s = []
         \<and> path f = strip_trailing_slash (flashcardRoot s) @ c # rest
       \<longrightarrow> \<not> shouldSkipFile s f)"
  by (auto simp: shouldSkipFile_def Let_def list_ex_iff segment_prefix_iff startsWith_def)

theorem shouldSkipFile_segment_prefix_witness:
  "\<not> shouldSkipFile (DEFAULT_SETTINGS [] \<lparr> excludedFolders := [] \<rparr>)
       \<lparr> path = ''Flashcards2/Note.md'', basename = ''Note'', extension = ''md'' \<rparr>"
  using shouldSkipFile_segment_prefix
          [of "DEFAULT_SETTINGS [] \<lparr> excludedFolders := [] \<rparr>"
              "\<lparr> path = ''Flashcards2/Note.md'', basename = ''Note'', extension = ''md'' \<rparr>",
           THEN conjunct2, rule_format, of "CHR ''2''" "''/Note.md''"]
  by (simp add: DEFAULT_SETTINGS_def strip_trailing_slash_def suffix_to_prefix)

subsection \<open>Sanitation\<close>

lemma match_ci_append:
  "map canonicalize op = map canonicalize pat \<Longrightarrow> match_ci pat (op @ r) = Some r"
proof (induction pat arbitrary: op)
  case Nil
  then show ?case by simp
next
  case (Cons p ps)
  then obtain c cs where "op = c # cs" by (cases op) auto
  with Cons show ?case by simp
qed

lemma match_ci_drop: "match_ci pat t = Some r \<Longrightarrow> r = drop (length pat) t"
  by (induction pat t rule: match_ci.induct) (auto split: if_splits)

text \<open>The lazy quantifier passes over the positions where no closing tag starts.\<close>

lemma after_first_close_skip:
  assumes "\<forall>k<length body. match_ci ''</think>'' (drop k (body @ x)) = None"
    and "match_ci ''</think>'' x = Some rest"
  shows "after_first_close (body @ x) = Some rest"
  using assms
proof (induction body)
  case Nil
  then obtain c cs where "x = c # cs" by (cases x) auto
  with Nil show ?case by simp
next
  case (Cons b bs)
  from Cons.prems(1) have 0: "match_ci ''</think>'' (b # bs @ x) = None" by force
  have "\<forall>k<length bs. match_ci ''</think>'' (drop k (bs @ x)) = None"
  proof (intro allI impI)
    fix k assume "k < length bs"
    then have "Suc k < length (b # bs)" by simp
    with Cons.prems(1) have "match_ci ''</think>'' (drop (Suc k) ((b # bs) @ x)) = None" by blast
    then show "match_ci ''</think>'' (drop k (bs @ x)) = None" by simp
  qed
  with Cons have "after_first_close (bs @ x) = Some rest" by blast
  with 0 show ?case by simp
qed

lemma after_first_close_None:
  "\<forall>k. match_ci ''</think>'' (drop k t) = None \<Longrightarrow> after_first_close t = None"
proof (induction t)
  case Nil
  show ?case by simp
next
  case (Cons c cs)
  from Cons.prems have 0: "match_ci ''</think>'' (c # cs) = None" by (metis drop0)
  have "\<forall>k. match_ci ''</think>'' (drop k cs) = None"
  proof
    fix k
    from Cons.prems have "match_ci ''</think>'' (drop (Suc k) (c # cs)) = None" by blast
    then show "match_ci ''</think>'' (drop k cs) = None" by simp
  qed
  with Cons.IH 0 show ?case by simp
qed

lemma trim_dropWhile: "trim (dropWhile is_space s) = trim s"
  by (simp add: trim_def)

lemma strip_think_block:
  assumes "map canonicalize op = map canonicalize ''<think>''"
    and "map canonicalize cl = map canonicalize ''</think>''"
    and "\<forall>k<length body. match_ci ''</think>'' (drop k (body @ cl @ rest)) = None"
  shows "strip_think (op @ body @ cl @ rest) = dropWhile is_space rest"
proof -
  have 1: "match_ci ''<think>'' (op @ body @ cl @ rest) = Some (body @ cl @ rest)"
    using assms(1) by (rule match_ci_append)
  have 2: "match_ci ''</think>'' (cl @ rest) = Some rest"
    using assms(2) by (rule match_ci_append)
  have 3: "after_first_close (body @ cl @ rest) = Some rest"
    using assms(3) 2 by (rule after_first_close_skip)
  show ?thesis by (simp add: strip_think_def 1 3)
qed

lemma strip_think_no_match:
  assumes "match_ci ''<think>'' t = None \<or> (\<forall>k. match_ci ''</think>'' (drop k t) = None)"
  shows "strip_think t = t"
proof (cases "match_ci ''<think>'' t")
  case None
  then show ?thesis by (simp add: strip_think_def)
next
  case (Some r)
  with assms have a: "\<forall>k. match_ci ''</think>'' (drop k t) = None" by simp
  from Some have r: "r = drop (length ''<think>'') t" by (rule match_ci_drop)
  have "\<forall>k. match_ci ''</think>'' (drop k r) = None"
    using a unfolding r by simp
  then have "after_first_close r = None" by (rule after_first_close_None)
  with Some show ?thesis by (simp add: strip_think_def)
qed

text \<open>
  Claim C3, as stated: a greedy removal of the reasoning block, then the removal of a
  leading bare tag, then a trim. The source differs in three ways. It stops at the first
  closing tag: of \<open><think>a</think>b</think>c\<close> a greedy removal leaves \<open>c\<close>, every
  revision leaves \<open>b</think>c\<close>. The revisions with the tag step trim before they test
  for the tag: a line break followed by \<open>#flashcards\<close>, a line break and \<open>X\<close> becomes
  \<open>X\<close>, where the stated order keeps the tag. And the first revision has no tag step:
  it keeps \<open>#flashcards\<close>, a line break and \<open>Front :: Back\<close> as it is.
\<close>

theorem sanitize_greedy_counterexample:
  "sanitize Without_tag_step (DEFAULT_SETTINGS []) ''<think>a</think>b</think>c''
     = ''b</think>c''
   \<and> sanitize With_tag_step (DEFAULT_SETTINGS []) ''<think>a</think>b</think>c''
     = ''b</think>c''
   \<and> sanitize_spec (DEFAULT_SETTINGS []) ''<think>a</think>b</think>c'' = ''c''
   \<and> sanitize With_tag_step (DEFAULT_SETTINGS []) ''\<newline>#flashcards\<newline>X'' = ''X''
   \<and> sanitize_spec (DEFAULT_SETTINGS []) ''\<newline>#flashcards\<newline>X'' = ''#flashcards\<newline>X''
   \<and> sanitize Without_tag_step (DEFAULT_SETTINGS []) ''#flashcards\<newline>Front :: Back''
     = ''#flashcards\<newline>Front :: Back''
   \<and> sanitize_spec (DEFAULT_SETTINGS []) ''#flashcards\<newline>Front :: Back''
     = ''Front :: Back''"
  by (simp add: sanitize_def sanitize_spec_def strip_think_def strip_think_greedy_def
        DEFAULT_SETTINGS_def canonicalize_def trim_def is_space_def startsWith_def)

text \<open>
  Claim C3, amended. In every revision the removal of the reasoning block is lazy: when
  the text starts with an opening tag (in any case) and \<open>cl\<close> is the first closing tag
  after it (in any case), all up to and including \<open>cl\<close> is removed and the rest is
  trimmed; a text that does not start with an opening tag, or has no closing tag, is
  trimmed as it is. The first revision stops there. The revisions with the tag step then
  remove a leading bare tag \<open>#tagLabel\<close> from the trimmed text, if it starts with one, and
  trim again. The witness has the two examples of the claim: the first holds in both
  kinds of revision, the second in the revisions with the tag step, while the first
  revision keeps the text.
\<close>

theorem sanitize_first_close_then_tag:
  "(map canonicalize op = map canonicalize ''<think>''
      \<and> map canonicalize cl = map canonicalize ''</think>''
      \<and> (\<forall>k<length body. match_ci ''</think>'' (drop k (body @ cl @ rest)) = None)
    \<longrightarrow> sanitize Without_tag_step s (op @ body @ cl @ rest) = trim rest
      \<and> sanitize With_tag_step s (op @ body @ cl @ rest) =
          (if startsWith (trim rest) (''#'' @ flashcardTag s)
           then trim (drop (length (''#'' @ flashcardTag s)) (trim rest))
           else trim rest))
   \<and> (match_ci ''<think>'' t = None \<or> (\<forall>k. match_ci ''</think>'' (drop k t) = None)
    \<longrightarrow> sanitize Without_tag_step s t = trim t
      \<and> sanitize With_tag_step s t =
          (if startsWith (trim t) (''#'' @ flashcardTag s)
           then trim (drop (length (''#'' @ flashcardTag s)) (trim t))
           else trim t))"
  by (simp add: sanitize_def Let_def strip_think_block strip_think_no_match trim_dropWhile)

theorem sanitize_first_close_then_tag_witness:
  "sanitize Without_tag_step (DEFAULT_SETTINGS []) ''<think>scratch</think>\<newline>\<newline>Front :: Back''
     = ''Front :: Back''
   \<and> sanitize With_tag_step (DEFAULT_SETTINGS []) ''<think>scratch</think>\<newline>\<newline>Front :: Back''
     = ''Front :: Back''
   \<and> sanitize With_tag_step (DEFAULT_SETTINGS []) ''#flashcards\<newline>Front :: Back''
     = ''Front :: Back''
   \<and> sanitize Without_tag_step (DEFAULT_SETTINGS []) ''#flashcards\<newline>Front :: Back''
     = ''#flashcards\<newline>Front :: Back''"
  using sanitize_first_close_then_tag
          [of "''<think>''" "''</think>''" "''scratch''" "''\<newline>\<newline>Front :: Back''"
              "DEFAULT_SETTINGS []" "''#flashcards\<newline>Front :: Back''"]
  by (simp add: DEFAULT_SETTINGS_def canonicalize_def trim_def is_space_def startsWith_def
        All_less_Suc)

subsection \<open>Extraction\<close>

lemma js_or_chain:
  "foldr js_or xs l = (case find truthy xs of Some v \<Rightarrow> v | None \<Rightarrow> l)"
  by (induction xs) (auto simp: js_or_def)

lemma find_snoc:
  "find P (xs @ [x]) =
     (case find P xs of Some v \<Rightarrow> Some v | None \<Rightarrow> if P x then Some x else None)"
  by (induction xs) auto

text \<open>
  The chain \<open>raw.text || raw.content || ... || raw.result\<close> is the first truthy value of
  the six fields, and the value of \<open>raw.result\<close> when none is truthy.
\<close>

lemma probed_text:
  "js_or (get_prop ps ''text'')
     (js_or (get_prop ps ''content'')
     (js_or (get_prop ps ''message'')
     (js_or (get_prop ps ''response'')
     (js_or (get_prop ps ''data'') (get_prop ps ''result''))))) =
   (case find truthy (map (get_prop ps) probe_fields) of
      Some v \<Rightarrow> v
    | None \<Rightarrow> get_prop ps ''result'')"
proof -
  let ?xs = "map (get_prop ps) [''text'', ''content'', ''message'', ''response'', ''data'']"
  let ?l = "get_prop ps ''result''"
  have "js_or (get_prop ps ''text'')
     (js_or (get_prop ps ''content'')
     (js_or (get_prop ps ''message'')
     (js_or (get_prop ps ''response'')
     (js_or (get_prop ps ''data'') (get_prop ps ''result''))))) = foldr js_or ?xs ?l"
    by simp
  also have "\<dots> = (case find truthy ?xs of Some v \<Rightarrow> v | None \<Rightarrow> ?l)"
    by (rule js_or_chain)
  also have "\<dots> = (case find truthy (?xs @ [?l]) of Some v \<Rightarrow> v | None \<Rightarrow> ?l)"
    unfolding find_snoc by (simp split: option.splits)
  also have "?xs @ [?l] = map (get_prop ps) probe_fields"
    by (simp add: probe_fields_def)
  finally show ?thesis .
qed

text \<open>
  Claim C4, as stated: any value other than null is stringified, and an object yields the
  first non-empty string among its probed fields. The source tests truthiness instead:
  the result \<open>false\<close> with no accumulated text yields null, not \<open>"false"\<close>; and the object
  \<open>{text: 42, content: "hello"}\<close> yields the dump of the object, not \<open>"hello"\<close>, since
  the first truthy field is not a string.
\<close>

theorem extractResponseText_spec_counterexample:
  "extractResponseText (\<lambda>v. ''{}'') (\<lambda>v. ''false'') (JBoolean False) [] = None
   \<and> extract_spec (\<lambda>v. ''{}'') (\<lambda>v. ''false'') (JBoolean False) [] = Some ''false''
   \<and> extractResponseText
        (\<lambda>v. ''{\<newline>  \"text\": 42,\<newline>  \"content\": \"hello\"\<newline>}'') (\<lambda>v. ''[object Object]'')
        (JObject [(''text'', JNumber 42), (''content'', JString ''hello'')]) []
       = Some ''{\<newline>  \"text\": 42,\<newline>  \"content\": \"hello\"\<newline>}''
   \<and> extract_spec
        (\<lambda>v. ''{\<newline>  \"text\": 42,\<newline>  \"content\": \"hello\"\<newline>}'') (\<lambda>v. ''[object Object]'')
        (JObject [(''text'', JNumber 42), (''content'', JString ''hello'')]) []
       = Some ''hello''"
  by (simp add: extractResponseText_def extract_spec_def nonempty_string_def probe_fields_def
        get_prop_def js_or_def)

text \<open>
  Claim C4, amended: a non-empty string result is used as it is; else a non-empty
  accumulated text; else, for an object, the first truthy value among the probed fields
  (in the order text, content, message, response, data, result) is used when it is a
  string, and the dump of the object is used when it is not a string; when no probed
  field is truthy the dump is used, unless the field \<open>result\<close> is the empty string, which
  is then the text; else, for any other truthy value, its stringification; else null.
\<close>

theorem extractResponseText_precedence:
  "extractResponseText stringify toStr raw accumulated =
     (case raw of
        JString s \<Rightarrow>
          if s \<noteq> [] then Some s
          else if accumulated \<noteq> [] then Some accumulated
          else None
      | JObject ps \<Rightarrow>
          if accumulated \<noteq> [] then Some accumulated
          else (case find truthy (map (get_prop ps) probe_fields) of
                  Some (JString t) \<Rightarrow> Some t
                | Some v \<Rightarrow> Some (stringify raw)
                | None \<Rightarrow>
                    if get_prop ps ''result'' = JString [] then Some []
                    else Some (stringify raw))
      | v \<Rightarrow>
          if accumulated \<noteq> [] then Some accumulated
          else if truthy raw then Some (toStr raw)
          else None)"
proof (cases raw)
  case (JObject ps)
  show ?thesis
  proof (cases "find truthy (map (get_prop ps) probe_fields)")
    case None
    then have "\<forall>v \<in> set (map (get_prop ps) probe_fields). \<not> truthy v"
      by (simp only: find_None_iff) blast
    then have "\<not> truthy (get_prop ps ''result'')"
      by (simp add: probe_fields_def)
    then show ?thesis
      using None JObject
      by (auto simp add: extractResponseText_def probed_text split: jsval.splits)
  next
    case (Some v)
    then show ?thesis
      using JObject by (simp add: extractResponseText_def probed_text split: jsval.splits)
  qed
qed (simp_all add: extractResponseText_def)

theorem extractResponseText_precedence_witness:
  "extractResponseText (\<lambda>v. ''{}'') (\<lambda>v. ''true'')
     (JObject [(''text'', JString []), (''content'', JString ''Front :: Back'')]) []
     = Some ''Front :: Back''
   \<and> extractResponseText (\<lambda>v. ''{}'') (\<lambda>v. ''true'') (JString []) ''partial''
     = Some ''partial''
   \<and> extractResponseText (\<lambda>v. ''{}'') (\<lambda>v. ''true'') (JBoolean True) [] = Some ''true''
   \<and> extractResponseText (\<lambda>v. ''{}'') (\<lambda>v. ''true'') (JObject [(''result'', JString [])]) []
     = Some []"
  using extractResponseText_precedence [of "\<lambda>v. ''{}''" "\<lambda>v. ''true''"
          "JObject [(''text'', JString []), (''content'', JString ''Front :: Back'')]" "[]"]
        extractResponseText_precedence [of "\<lambda>v. ''{}''" "\<lambda>v. ''true''" "JString []" "''partial''"]
        extractResponseText_precedence [of "\<lambda>v. ''{}''" "\<lambda>v. ''true''" "JBoolean True" "[]"]
        extractResponseText_precedence [of "\<lambda>v. ''{}''" "\<lambda>v. ''true''"
          "JObject [(''result'', JString [])]" "[]"]
  by (simp add: probe_fields_def get_prop_def)

subsection \<open>The content store\<close>

lemmas eval_defs =
  generateFlashcards_def saveFlashcards_def shouldSkipFile_def getAIProviders_def
  selectProvider_def sanitize_def strip_think_def extractResponseText_def
  strip_trailing_slash_def strip_md_def startsWith_def trim_def is_space_def
  canonicalize_def suffix_to_prefix Let_def
  DEFAULT_SETTINGS_def mem_host_def denying_host_def fixed_service_def recording_host_def fresh_recorder_def
  fables_def vault0_def vault_old_def vault_new_def answering_host_def

text \<open>The store in memory keeps the contract.\<close>

lemma mem_host_contract: "store_contract (mem_host ai)"
  by (auto simp: store_contract_def mem_host_def split: option.splits node.splits if_splits)


text \<open>
  After a commit that did not reject, the destination holds the composed text: the write
  was a \<open>modify\<close> or a \<open>create\<close> at the destination.
\<close>

lemma saved_content:
  assumes "store_contract h" and "saveFlashcards h s f c w = (None, w')"
  shows "vault_read h w' (strip_trailing_slash (flashcardRoot s) @ ''/'' @ path f) =
           Inr (''#'' @ flashcardTag s @ ''/'' @ strip_md (path f) @ nl2
                @ (if trim (fileHeader s) = [] then [] else trim (fileHeader s) @ nl2) @ c)"
proof -
  let ?target = "strip_trailing_slash (flashcardRoot s) @ ''/'' @ path f"
  let ?final = "''#'' @ flashcardTag s @ ''/'' @ strip_md (path f) @ nl2
                @ (if trim (fileHeader s) = [] then [] else trim (fileHeader s) @ nl2) @ c"
  from assms(2) obtain w1 where
    "vault_modify h w1 ?target ?final = (None, w') \<or> vault_create h w1 ?target ?final = (None, w')"
    by (auto simp: saveFlashcards_def Let_def
             split: if_splits sum.splits bool.splits option.splits abstract_file.splits)
  with assms(1) show ?thesis
    unfolding store_contract_def by blast
qed

text \<open>A run that ends in \<open>Done\<close> went through every step.\<close>

lemma Done_saved:
  assumes "generateFlashcards rv h s f w = (Done, r, w')"
  shows "\<not> shouldSkipFile s f \<and>
         (\<exists>content ai p totals result text.
            vault_read h w (path f) = Inr content
          \<and> getAIProviders h = Some ai
          \<and> selectProvider s ai = Some p
          \<and> execute ai p (systemPrompt s @ nl2 @ content) = (totals, Inr result)
          \<and> extractResponseText (JSON_stringify h) (String_of h) result
                (if totals = [] then [] else last totals) = Some text
          \<and> r = [systemPrompt s @ nl2 @ content]
          \<and> saveFlashcards h s f (sanitize rv s text) w = (None, w'))"
  using assms
  by (auto simp: generateFlashcards_def Let_def
           split: if_splits sum.splits option.splits prod.splits)

text \<open>The commit step on the store in memory, in closed form.\<close>

lemma mem_host_save_eq:
  "saveFlashcards (mem_host ai) s f c w =
     (let target = strip_trailing_slash (flashcardRoot s) @ ''/'' @ path f;
          folder = join_slash (butlast (split_slash target));
          final = ''#'' @ flashcardTag s @ ''/'' @ strip_md (path f) @ nl2
                @ (if trim (fileHeader s) = [] then [] else trim (fileHeader s) @ nl2) @ c;
          w' = (if folder = [] \<or> w folder \<noteq> None then w else w(folder \<mapsto> Folder))
      in case w' target of
           Some Folder \<Rightarrow> (Some AlreadyExists, w')
         | _ \<Rightarrow> (None, w'(target \<mapsto> File final)))"
proof -
  define target where "target = strip_trailing_slash (flashcardRoot s) @ ''/'' @ path f"
  define folder where "folder = join_slash (butlast (split_slash target))"
  have ft: "folder \<noteq> [] \<Longrightarrow> folder \<noteq> target"
    unfolding folder_def by (rule folder_neq_target)
  consider "folder = []" | "folder \<noteq> []" "w folder \<noteq> None" | "folder \<noteq> []" "w folder = None"
    by blast
  then have "saveFlashcards (mem_host ai) s f c w =
     (let final = ''#'' @ flashcardTag s @ ''/'' @ strip_md (path f) @ nl2
                @ (if trim (fileHeader s) = [] then [] else trim (fileHeader s) @ nl2) @ c;
          w' = (if folder = [] \<or> w folder \<noteq> None then w else w(folder \<mapsto> Folder))
      in case w' target of
           Some Folder \<Rightarrow> (Some AlreadyExists, w')
         | _ \<Rightarrow> (None, w'(target \<mapsto> File final)))"
  proof cases
    case 1
    then show ?thesis
      unfolding saveFlashcards_def mem_host_def Let_def target_def [symmetric] folder_def [symmetric]
      by (simp split: option.splits node.splits)
  next
    case 2
    then show ?thesis
      unfolding saveFlashcards_def mem_host_def Let_def target_def [symmetric] folder_def [symmetric]
      by (simp split: option.splits node.splits)
  next
    case 3
    with ft have "target \<noteq> folder" by auto
    with 3 show ?thesis
      unfolding saveFlashcards_def mem_host_def Let_def target_def [symmetric] folder_def [symmetric]
      by (simp split: option.splits node.splits)
  qed
  then show ?thesis
    unfolding target_def folder_def Let_def by simp
qed

text \<open>
  On the store in memory a commit after a commit that did not reject does not reject and
  changes nothing: the folder is there and is not created again, and the file is
  overwritten with the same text.
\<close>

lemma mem_host_save_twice:
  assumes "saveFlashcards (mem_host ai) s f c w = (None, w1)"
  shows "saveFlashcards (mem_host ai) s f c w1 = (None, w1)"
proof -
  define target where "target = strip_trailing_slash (flashcardRoot s) @ ''/'' @ path f"
  define folder where "folder = join_slash (butlast (split_slash target))"
  define w' where "w' = (if folder = [] \<or> w folder \<noteq> None then w else w(folder \<mapsto> Folder))"
  have ft: "folder \<noteq> [] \<Longrightarrow> folder \<noteq> target"
    unfolding folder_def by (rule folder_neq_target)
  from assms have c1: "w1 = w'(target \<mapsto> File (''#'' @ flashcardTag s @ ''/'' @ strip_md (path f) @ nl2
                @ (if trim (fileHeader s) = [] then [] else trim (fileHeader s) @ nl2) @ c))"
    unfolding mem_host_save_eq Let_def target_def [symmetric] folder_def [symmetric]
      w'_def [symmetric]
    by (auto split: option.splits node.splits)
  have fo: "folder \<noteq> [] \<Longrightarrow> w1 folder \<noteq> None"
    using ft c1 by (auto simp: w'_def)
  show ?thesis
    unfolding mem_host_save_eq Let_def target_def [symmetric] folder_def [symmetric]
    using fo c1 by auto
qed

text \<open>
  The pipeline reads the store through the source note and changes it through the commit
  step only.
\<close>

lemma Done_transfer:
  assumes "generateFlashcards rv h s f w = (Done, r, w1)"
    and "vault_read h w2 (path f) = vault_read h w (path f)"
    and "\<And>c. saveFlashcards h s f c w = (None, w1) \<Longrightarrow> saveFlashcards h s f c w2 = (None, w3)"
  shows "generateFlashcards rv h s f w2 = (Done, r, w3)"
proof -
  from Done_saved [OF assms(1)] obtain content svc p totals result t1 where
    a: "\<not> shouldSkipFile s f"
       "vault_read h w (path f) = Inr content"
       "getAIProviders h = Some svc" "selectProvider s svc = Some p"
       "execute svc p (systemPrompt s @ nl2 @ content) = (totals, Inr result)"
       "extractResponseText (JSON_stringify h) (String_of h) result
          (if totals = [] then [] else last totals) = Some t1"
       "r = [systemPrompt s @ nl2 @ content]"
       "saveFlashcards h s f (sanitize rv s t1) w = (None, w1)"
    by blast
  have b: "saveFlashcards h s f (sanitize rv s t1) w2 = (None, w3)"
    using a(8) by (rule assms(3))
  have c: "vault_read h w2 (path f) = Inr content"
    using a(2) assms(2) by simp
  show ?thesis
    using assms(1) a(1,3-7) unfolding generateFlashcards_def Let_def
    by (simp add: a(2) b c a(8) split: if_splits)
qed

text \<open>
  On the store in memory a second run after a run that ended in \<open>Done\<close> ends in \<open>Done\<close>
  too, submits the same prompt, and leaves the store as the first run left it.
\<close>

lemma mem_host_rerun:
  assumes "generateFlashcards rv (mem_host ai) s f w = (Done, r, w1)"
  shows "generateFlashcards rv (mem_host ai) s f w1 = (Done, r, w1)"
proof (rule Done_transfer [OF assms])
  define target where "target = strip_trailing_slash (flashcardRoot s) @ ''/'' @ path f"
  define folder where "folder = join_slash (butlast (split_slash target))"
  define w' where "w' = (if folder = [] \<or> w folder \<noteq> None then w else w(folder \<mapsto> Folder))"
  have ft: "folder \<noteq> [] \<Longrightarrow> folder \<noteq> target"
    unfolding folder_def by (rule folder_neq_target)
  have pt: "path f \<noteq> target"
    unfolding target_def by (metis append_self_conv2 append_assoc append_Cons list.distinct(1) same_append_eq self_append_conv2)
  from Done_saved [OF assms] obtain content c0 where
    rd: "vault_read (mem_host ai) w (path f) = Inr content" and
    sv: "saveFlashcards (mem_host ai) s f c0 w = (None, w1)"
    by blast
  from rd have wp: "w (path f) = Some (File content)"
    by (auto simp: mem_host_def split: option.splits node.splits)
  have w1: "\<exists>final. w1 = w'(target \<mapsto> File final)"
    using sv unfolding mem_host_save_eq Let_def target_def [symmetric] folder_def [symmetric]
      w'_def [symmetric]
    by (auto split: option.splits node.splits)
  have pf: "w' (path f) = w (path f)"
    using wp by (auto simp: w'_def)
  show "vault_read (mem_host ai) w1 (path f) = vault_read (mem_host ai) w (path f)"
    using w1 pt pf by (auto simp: mem_host_def)
  fix c
  assume "saveFlashcards (mem_host ai) s f c w = (None, w1)"
  then have c1: "w1 = w'(target \<mapsto> File (''#'' @ flashcardTag s @ ''/'' @ strip_md (path f) @ nl2
                @ (if trim (fileHeader s) = [] then [] else trim (fileHeader s) @ nl2) @ c))"
    unfolding mem_host_save_eq Let_def target_def [symmetric] folder_def [symmetric]
      w'_def [symmetric]
    by (auto split: option.splits node.splits)
  have fo: "folder \<noteq> [] \<Longrightarrow> w1 folder \<noteq> None"
    using ft c1 by (auto simp: w'_def)
  show "saveFlashcards (mem_host ai) s f c w1 = (None, w1)"
    unfolding mem_host_save_eq Let_def target_def [symmetric] folder_def [symmetric]
    using fo c1 by auto
qed

text \<open>
  The commit step on the recording store: the calls it makes, and its result, whatever
  the store answers.
\<close>

lemma recording_save:
  "saveFlashcards (recording_host rd ex look rej ai) s f c log =
     (let target = strip_trailing_slash (flashcardRoot s) @ ''/'' @ path f;
          folder = join_slash (butlast (split_slash target));
          final = ''#'' @ flashcardTag s @ ''/'' @ strip_md (path f) @ nl2
                @ (if trim (fileHeader s) = [] then [] else trim (fileHeader s) @ nl2) @ c;
          call = (if look target = Some IsFile then Modify target final
                  else Create target final)
      in if folder = [] then (rej call, log @ [call])
         else (case ex folder of
                 Inl e \<Rightarrow> (Some e, log)
               | Inr True \<Rightarrow> (rej call, log @ [call])
               | Inr False \<Rightarrow> (rej call, log @ [CreateFolder folder, call])))"
  by (simp add: saveFlashcards_def recording_host_def Let_def
           split: sum.splits bool.splits option.splits abstract_file.splits)

text \<open>A run leaves the store as it found it, or as the commit step left it.\<close>

lemma run_store_cases:
  "snd (snd (generateFlashcards rv h s f w)) = w
   \<or> (\<exists>c. snd (snd (generateFlashcards rv h s f w)) = snd (saveFlashcards h s f c w))"
  by (auto simp: generateFlashcards_def Let_def
           split: if_splits sum.splits option.splits prod.splits)
     (metis snd_conv)+

lemma strip_trailing_slash_cases:
  "(\<forall>r. root = r @ ''/'' \<longrightarrow> strip_trailing_slash root = r)
   \<and> (\<not> suffix ''/'' root \<longrightarrow> strip_trailing_slash root = root)"
  by (simp add: strip_trailing_slash_def suffix_def)

lemma dropWhile_keeps_suffix:
  "ys \<noteq> [] \<Longrightarrow> \<not> P (hd ys) \<Longrightarrow> \<exists>zs. dropWhile P (xs @ ys) = zs @ ys"
proof (induction xs)
  case Nil
  then show ?case by (cases ys) auto
next
  case (Cons x xs)
  then obtain zs where "dropWhile P (xs @ ys) = zs @ ys" by blast
  then show ?case by (cases "P x") (auto intro: exI [of _ "x # xs"])
qed

text \<open>
  A text that starts with a marker whose first and last character are not white space
  still starts with the marker after \<open>trim\<close>.
\<close>

lemma trim_keeps_prefix:
  assumes "p \<noteq> []" and "\<not> is_space (hd p)" and "\<not> is_space (last p)"
  shows "startsWith (trim (p @ rest)) p"
proof -
  from assms(1,2) have 1: "dropWhile is_space (p @ rest) = p @ rest"
    by (cases p) auto
  from assms(1,3) have "rev p \<noteq> []" "\<not> is_space (hd (rev p))"
    by (simp_all add: hd_rev)
  then obtain zs where "dropWhile is_space (rev rest @ rev p) = zs @ rev p"
    using dropWhile_keeps_suffix by blast
  then have "trim (p @ rest) = p @ rev zs"
    by (simp add: trim_def 1)
  then show ?thesis by (simp add: startsWith_def)
qed

subsection \<open>The commit step and the pipeline\<close>



text \<open>
  Claim C5: the destination is the output root without one trailing slash, a slash, and
  the source path. On the recording store, whatever it answers: the commit step
  addresses its one file write to that path (and writes nothing only when the check for
  the folder is rejected); every file write of a run of the pipeline has that path; and
  a run that ends in \<open>Done\<close> was not skipped and made exactly that write. The path is a
  function of the settings and the source path alone, so two computations with the same
  inputs give the same path.
\<close>

theorem destination_path:
  assumes "target = strip_trailing_slash (flashcardRoot s) @ ''/'' @ path f"
    and "folder = join_slash (butlast (split_slash target))"
  shows "map fst (written (snd (saveFlashcards (recording_host rd ex look rej ai) s f c []))) =
           (if folder \<noteq> [] \<and> isl (ex folder) then [] else [target])
       \<and> (map fst (written (snd (snd
              (generateFlashcards rv (recording_host rd ex look rej ai) s f [])))) = []
          \<or> map fst (written (snd (snd
              (generateFlashcards rv (recording_host rd ex look rej ai) s f [])))) = [target])
       \<and> (fst (generateFlashcards rv (recording_host rd ex look rej ai) s f []) = Done
            \<longrightarrow> \<not> shouldSkipFile s f
              \<and> map fst (written (snd (snd
                   (generateFlashcards rv (recording_host rd ex look rej ai) s f [])))) = [target])
       \<and> (\<forall>r. flashcardRoot s = r @ ''/'' \<longrightarrow> strip_trailing_slash (flashcardRoot s) = r)
       \<and> (\<not> suffix ''/'' (flashcardRoot s)
            \<longrightarrow> strip_trailing_slash (flashcardRoot s) = flashcardRoot s)"
proof -
  let ?h = "recording_host rd ex look rej ai"
  have sv: "map fst (written (snd (saveFlashcards ?h s f c []))) =
           (if folder \<noteq> [] \<and> isl (ex folder) then [] else [target])" for c
    unfolding recording_save Let_def assms(1) [symmetric] assms(2) [symmetric]
    by (simp split: sum.splits bool.splits)
  have all: "map fst (written (snd (snd (generateFlashcards rv ?h s f [])))) = []
          \<or> map fst (written (snd (snd (generateFlashcards rv ?h s f [])))) = [target]"
    using run_store_cases [of rv ?h s f "[]"] sv by (auto split: if_splits)
  have dn: "\<not> shouldSkipFile s f
              \<and> map fst (written (snd (snd (generateFlashcards rv ?h s f [])))) = [target]"
    if d: "fst (generateFlashcards rv ?h s f []) = Done"
  proof -
    from d obtain r w' where run: "generateFlashcards rv ?h s f [] = (Done, r, w')"
      by (cases "generateFlashcards rv ?h s f []") auto
    from Done_saved [OF run] obtain t1 where
      skip: "\<not> shouldSkipFile s f" and
      save: "saveFlashcards ?h s f (sanitize rv s t1) [] = (None, w')"
      by blast
    have "\<not> (folder \<noteq> [] \<and> isl (ex folder))"
      using save unfolding recording_save Let_def assms(1) [symmetric] assms(2) [symmetric]
      by (auto split: sum.splits bool.splits if_splits)
    with sv [of "sanitize rv s t1"] save skip run show ?thesis by simp
  qed
  from sv all dn strip_trailing_slash_cases [of "flashcardRoot s"] show ?thesis by blast
qed

theorem destination_path_witness:
  "snd (saveFlashcards (fresh_recorder (\<lambda>call. None))
          (DEFAULT_SETTINGS [] \<lparr> flashcardRoot := ''Flashcards/'' \<rparr>) fables ''Front :: Back'' [])
     = [CreateFolder ''Flashcards/Books'',
        Create ''Flashcards/Books/Fables.md'' ''#flashcards/Books/Fables\<newline>\<newline>Front :: Back'']
   \<and> map fst (written (snd (saveFlashcards (fresh_recorder (\<lambda>call. None))
          (DEFAULT_SETTINGS [] \<lparr> flashcardRoot := ''Flashcards/'' \<rparr>) fables ''Front :: Back'' [])))
     = [''Flashcards/Books/Fables.md'']
   \<and> \<not> shouldSkipFile (DEFAULT_SETTINGS []) fables
   \<and> generateFlashcards Without_tag_step (fresh_recorder (\<lambda>call. None)) (DEFAULT_SETTINGS [])
         fables []
     = (Done, [''\<newline>\<newline>The fox and the grapes.''],
        [CreateFolder ''Flashcards/Books'',
         Create ''Flashcards/Books/Fables.md'' ''#flashcards/Books/Fables\<newline>\<newline>Front :: Back''])
   \<and> map fst (written (snd (snd (generateFlashcards Without_tag_step
          (fresh_recorder (\<lambda>call. None)) (DEFAULT_SETTINGS []) fables []))))
     = [''Flashcards/Books/Fables.md'']
   \<and> generateFlashcards With_tag_step (fresh_recorder (\<lambda>call. Some PermissionDenied))
         (DEFAULT_SETTINGS []) fables []
     = (Failed (Exception PermissionDenied), [''\<newline>\<newline>The fox and the grapes.''],
        [CreateFolder ''Flashcards/Books'',
         Create ''Flashcards/Books/Fables.md'' ''#flashcards/Books/Fables\<newline>\<newline>Front :: Back''])"
proof -
  let ?s = "DEFAULT_SETTINGS [] \<lparr> flashcardRoot := ''Flashcards/'' \<rparr>"
  have t1: "strip_trailing_slash (flashcardRoot ?s) @ ''/'' @ path fables
              = ''Flashcards/Books/Fables.md''"
    by (simp add: eval_defs)
  have t2: "strip_trailing_slash (flashcardRoot (DEFAULT_SETTINGS [])) @ ''/'' @ path fables
              = ''Flashcards/Books/Fables.md''"
    by (simp add: eval_defs)
  have fo: "join_slash (butlast (split_slash ''Flashcards/Books/Fables.md'')) = ''Flashcards/Books''"
    by simp
  have e1: "snd (saveFlashcards (fresh_recorder (\<lambda>call. None)) ?s fables ''Front :: Back'' [])
     = [CreateFolder ''Flashcards/Books'',
        Create ''Flashcards/Books/Fables.md'' ''#flashcards/Books/Fables\<newline>\<newline>Front :: Back'']"
    by (simp add: eval_defs)
  have e2: "generateFlashcards Without_tag_step (fresh_recorder (\<lambda>call. None))
              (DEFAULT_SETTINGS []) fables []
     = (Done, [''\<newline>\<newline>The fox and the grapes.''],
        [CreateFolder ''Flashcards/Books'',
         Create ''Flashcards/Books/Fables.md'' ''#flashcards/Books/Fables\<newline>\<newline>Front :: Back''])"
    by (simp add: eval_defs)
  have e3: "generateFlashcards With_tag_step (fresh_recorder (\<lambda>call. Some PermissionDenied))
         (DEFAULT_SETTINGS []) fables []
     = (Failed (Exception PermissionDenied), [''\<newline>\<newline>The fox and the grapes.''],
        [CreateFolder ''Flashcards/Books'',
         Create ''Flashcards/Books/Fables.md'' ''#flashcards/Books/Fables\<newline>\<newline>Front :: Back''])"
    by (simp add: eval_defs)
  have d: "fst (generateFlashcards Without_tag_step (fresh_recorder (\<lambda>call. None))
              (DEFAULT_SETTINGS []) fables []) = Done"
    by (simp add: e2)
  note a = destination_path [OF refl refl, of "\<lambda>p. Inr ''The fox and the grapes.''" "\<lambda>p. Inr False"
                   "\<lambda>p. None" "\<lambda>call. None"
                   "Some (fixed_service [] (JString ''Front :: Back''))" ?s fables
                   "''Front :: Back''" Without_tag_step,
                 folded fresh_recorder_def, unfolded t1 fo]
  note b = destination_path [OF refl refl, of "\<lambda>p. Inr ''The fox and the grapes.''" "\<lambda>p. Inr False"
                   "\<lambda>p. None" "\<lambda>call. None"
                   "Some (fixed_service [] (JString ''Front :: Back''))" "DEFAULT_SETTINGS []" fables
                   "''Front :: Back''" Without_tag_step,
                 folded fresh_recorder_def, unfolded t2 fo]
  from a have 1: "map fst (written (snd (saveFlashcards (fresh_recorder (\<lambda>call. None))
          ?s fables ''Front :: Back'' []))) = [''Flashcards/Books/Fables.md'']"
    by simp
  from b d have 2: "\<not> shouldSkipFile (DEFAULT_SETTINGS []) fables
     \<and> map fst (written (snd (snd (generateFlashcards Without_tag_step
          (fresh_recorder (\<lambda>call. None)) (DEFAULT_SETTINGS []) fables []))))
     = [''Flashcards/Books/Fables.md'']"
    by blast
  from e1 1 2 e2 e3 show ?thesis by blast
qed

text \<open>
  Claim C6: two runs on the same source text, with the same settings and the same
  generation service, leave the same artifact at the destination, whatever the stores
  they started from held there: the commit replaces the artifact. In particular the second
  of two successive runs leaves what the first one left (on the store in memory the second
  run always ends in \<open>Done\<close> and changes nothing, by \<open>mem_host_rerun\<close>). The witness starts
  from a store that holds an older artifact and runs twice.
\<close>

theorem rerun_same_artifact:
  assumes "store_contract h"
    and "vault_read h wa (path f) = vault_read h wb (path f)"
    and "generateFlashcards rv h s f wa = (Done, ra, wa')"
    and "generateFlashcards rv h s f wb = (Done, rb, wb')"
  shows "vault_read h wa' (strip_trailing_slash (flashcardRoot s) @ ''/'' @ path f)
           = vault_read h wb' (strip_trailing_slash (flashcardRoot s) @ ''/'' @ path f)
       \<and> (\<exists>c. vault_read h wa' (strip_trailing_slash (flashcardRoot s) @ ''/'' @ path f) = Inr c)
       \<and> ra = rb"
proof -
  from Done_saved [OF assms(3)] obtain content ai p totals result t1 where
    a: "vault_read h wa (path f) = Inr content"
       "getAIProviders h = Some ai" "selectProvider s ai = Some p"
       "execute ai p (systemPrompt s @ nl2 @ content) = (totals, Inr result)"
       "extractResponseText (JSON_stringify h) (String_of h) result
          (if totals = [] then [] else last totals) = Some t1"
       "ra = [systemPrompt s @ nl2 @ content]"
       "saveFlashcards h s f (sanitize rv s t1) wa = (None, wa')"
    by blast
  from Done_saved [OF assms(4)] obtain content' ai' p' totals' result' t2 where
    b: "vault_read h wb (path f) = Inr content'"
       "getAIProviders h = Some ai'" "selectProvider s ai' = Some p'"
       "execute ai' p' (systemPrompt s @ nl2 @ content') = (totals', Inr result')"
       "extractResponseText (JSON_stringify h) (String_of h) result'
          (if totals' = [] then [] else last totals') = Some t2"
       "rb = [systemPrompt s @ nl2 @ content']"
       "saveFlashcards h s f (sanitize rv s t2) wb = (None, wb')"
    by blast
  from a(1) b(1) assms(2) have c: "content' = content" by simp
  with a(2,3) b(2,3) have "ai' = ai" "p' = p" by simp_all
  with a(4) b(4) c have "totals' = totals" "result' = result" by simp_all
  with a(5) b(5) have t: "t2 = t1" by auto
  from saved_content [OF assms(1) a(7)] saved_content [OF assms(1) b(7)] t a(6) b(6) c
  show ?thesis by simp
qed

theorem rerun_same_artifact_witness:
  "generateFlashcards With_tag_step (answering_host (JString ''Front :: Back'')) (DEFAULT_SETTINGS ''Distill.'')
     fables vault_old
     = (Done, [''Distill.'' @ nl2 @ ''The fox and the grapes.''], vault_new)
   \<and> generateFlashcards With_tag_step (answering_host (JString ''Front :: Back'')) (DEFAULT_SETTINGS ''Distill.'')
     fables vault_new
     = (Done, [''Distill.'' @ nl2 @ ''The fox and the grapes.''], vault_new)
   \<and> vault_read (answering_host (JString ''Front :: Back'')) vault_old ''Flashcards/Books/Fables.md''
     = Inr (''#flashcards/Books/Fables'' @ nl2 @ ''Old :: Card'')
   \<and> vault_read (answering_host (JString ''Front :: Back'')) vault_new ''Flashcards/Books/Fables.md''
     = Inr (''#flashcards/Books/Fables'' @ nl2 @ ''Front :: Back'')"
proof -
  let ?h = "answering_host (JString ''Front :: Back'')"
  let ?s = "DEFAULT_SETTINGS ''Distill.''"
  let ?r = "[''Distill.'' @ nl2 @ ''The fox and the grapes.'']"
  have c: "store_contract ?h"
    unfolding answering_host_def by (rule mem_host_contract)
  have e1: "generateFlashcards With_tag_step ?h ?s fables vault_old = (Done, ?r, vault_new)"
    by (simp add: eval_defs)
  have e2: "generateFlashcards With_tag_step ?h ?s fables vault_new = (Done, ?r, vault_new)"
    using e1 unfolding answering_host_def by (rule mem_host_rerun)
  have rd: "vault_read ?h vault_old (path fables) = vault_read ?h vault_new (path fables)"
    by (simp add: eval_defs)
  have old: "vault_read ?h vault_old ''Flashcards/Books/Fables.md''
           = Inr (''#flashcards/Books/Fables'' @ nl2 @ ''Old :: Card'')"
    by (simp add: eval_defs)
  from rerun_same_artifact [OF c rd e1 e2] obtain c where
    new: "vault_read ?h vault_new (strip_trailing_slash (flashcardRoot ?s) @ ''/'' @ path fables)
            = Inr c"
    by blast
  have "vault_read ?h vault_new ''Flashcards/Books/Fables.md''
           = Inr (''#flashcards/Books/Fables'' @ nl2 @ ''Front :: Back'')"
    using new by (simp add: eval_defs)
  with e1 e2 old show ?thesis by simp
qed

text \<open>
  Claim C7: when the generation service has streamed no text and the extracted text is
  null or empty after trimming, the run ends in \<open>Failed EmptyResponse\<close> and the store is
  the one the run started from. The witness is the empty string as the result, on a store
  that holds an older artifact.
\<close>

theorem empty_response_no_write:
  assumes "\<not> shouldSkipFile s f"
    and "vault_read h w (path f) = Inr content"
    and "trim content \<noteq> []"
    and "\<not> startsWith (trim content) (''#'' @ flashcardTag s @ ''/'')"
    and "getAIProviders h = Some ai"
    and "selectProvider s ai = Some p"
    and "execute ai p (systemPrompt s @ nl2 @ content) = (totals, Inr result)"
    and "totals = [] \<or> last totals = []"
    and "case extractResponseText (JSON_stringify h) (String_of h) result [] of
           None \<Rightarrow> True
         | Some t \<Rightarrow> trim t = []"
  shows "generateFlashcards rv h s f w
           = (Failed EmptyResponse, [systemPrompt s @ nl2 @ content], w)"
proof -
  from assms(8) have acc: "(if totals = [] then [] else last totals) = []" by auto
  show ?thesis
    using assms(1-7,9)
    by (auto simp add: generateFlashcards_def Let_def acc split: option.splits)
qed

theorem empty_response_no_write_witness:
  "generateFlashcards With_tag_step (answering_host (JString [])) (DEFAULT_SETTINGS ''Distill.'') fables vault_old
     = (Failed EmptyResponse, [''Distill.'' @ nl2 @ ''The fox and the grapes.''], vault_old)
   \<and> vault_read (answering_host (JString [])) vault_old ''Flashcards/Books/Fables.md''
     = Inr (''#flashcards/Books/Fables'' @ nl2 @ ''Old :: Card'')"
proof -
  let ?h = "answering_host (JString [])"
  let ?s = "DEFAULT_SETTINGS ''Distill.''"
  let ?p = "\<lparr> provider_id = ''p1'', provider_name = ''Provider'' \<rparr>"
  have 1: "\<not> shouldSkipFile ?s fables" by (simp add: eval_defs)
  have 2: "vault_read ?h vault_old (path fables) = Inr ''The fox and the grapes.''"
    by (simp add: eval_defs)
  have 3: "trim ''The fox and the grapes.'' \<noteq> []" by (simp add: eval_defs)
  have 4: "\<not> startsWith (trim ''The fox and the grapes.'') (''#'' @ flashcardTag ?s @ ''/'')"
    by (simp add: eval_defs)
  have 5: "getAIProviders ?h = Some (fixed_service [] (JString []))" by (simp add: eval_defs)
  have 6: "selectProvider ?s (fixed_service [] (JString [])) = Some ?p" by (simp add: eval_defs)
  have 7: "execute (fixed_service [] (JString [])) ?p
             (systemPrompt ?s @ nl2 @ ''The fox and the grapes.'') = ([], Inr (JString []))"
    by (simp add: eval_defs)
  have 8: "[] = [] \<or> last [] = ([] :: string)" by simp
  have 9: "case extractResponseText (JSON_stringify ?h) (String_of ?h) (JString []) [] of
             None \<Rightarrow> True
           | Some t \<Rightarrow> trim t = []"
    by (simp add: eval_defs)
  have old: "vault_read ?h vault_old ''Flashcards/Books/Fables.md''
           = Inr (''#flashcards/Books/Fables'' @ nl2 @ ''Old :: Card'')"
    by (simp add: eval_defs)
  from empty_response_no_write [OF 1 2 3 4 5 6 7 8 9] old show ?thesis
    by (simp add: DEFAULT_SETTINGS_def)
qed

text \<open>
  Claim C9, as stated: a rejection of the folder creation is dropped exactly when it says
  that the folder exists. On a store that rejects every folder creation for lack of
  permission, the run still ends in \<open>Done\<close>: the rejection is dropped although it does
  not say that the folder exists.
\<close>

theorem createFolder_swallow_counterexample:
  "adapter_exists (denying_host (Some (fixed_service [] (JString ''Front :: Back''))))
     vault0 ''Flashcards/Books'' = Inr False
   \<and> vault_createFolder (denying_host (Some (fixed_service [] (JString ''Front :: Back''))))
       vault0 ''Flashcards/Books'' = (Some PermissionDenied, vault0)
   \<and> PermissionDenied \<noteq> AlreadyExists
   \<and> generateFlashcards With_tag_step (denying_host (Some (fixed_service [] (JString ''Front :: Back''))))
       (DEFAULT_SETTINGS []) fables vault0
       = (Done, [nl2 @ ''The fox and the grapes.''],
          vault0 (''Flashcards/Books/Fables.md'' \<mapsto>
                    File (''#flashcards/Books/Fables'' @ nl2 @ ''Front :: Back'')))"
  by (simp add: eval_defs)

text \<open>
  Claim C9, amended: the result of the folder creation is dropped whatever it is, so a
  rejection that says that the folder exists is dropped like any other. The four cases
  of the commit step: when the folder path is not empty and the store reports that the
  folder does not exist, the folder creation is called and the commit goes on to the
  write on the store the creation left; when the store reports that the folder exists,
  or when the folder path is empty, the commit goes on to the write on the store as it
  is; when the check for the folder is rejected, the commit is rejected. On the recording
  store the folder creation is called exactly in the first case, and the result of the
  commit is the answer to the write, whatever the store answers to the folder creation.
  On the store in memory a commit repeated after one that did not reject changes nothing.
\<close>

theorem createFolder_rejection_dropped:
  assumes "target = strip_trailing_slash (flashcardRoot s) @ ''/'' @ path f"
    and "folder = join_slash (butlast (split_slash target))"
    and "finalContent = ''#'' @ flashcardTag s @ ''/'' @ strip_md (path f) @ nl2
           @ (if trim (fileHeader s) = [] then [] else trim (fileHeader s) @ nl2) @ c"
  shows "(folder \<noteq> [] \<and> adapter_exists h w folder = Inr False
            \<and> vault_createFolder h w folder = (r, w1)
          \<longrightarrow> saveFlashcards h s f c w =
                (case vault_getAbstractFileByPath h w1 target of
                   Some IsFile \<Rightarrow> vault_modify h w1 target finalContent
                 | _ \<Rightarrow> vault_create h w1 target finalContent))
       \<and> (folder \<noteq> [] \<and> adapter_exists h w folder = Inr True
          \<longrightarrow> saveFlashcards h s f c w =
                (case vault_getAbstractFileByPath h w target of
                   Some IsFile \<Rightarrow> vault_modify h w target finalContent
                 | _ \<Rightarrow> vault_create h w target finalContent))
       \<and> (folder \<noteq> [] \<and> adapter_exists h w folder = Inl e
          \<longrightarrow> saveFlashcards h s f c w = (Some e, w))
       \<and> (folder = []
          \<longrightarrow> saveFlashcards h s f c w =
                (case vault_getAbstractFileByPath h w target of
                   Some IsFile \<Rightarrow> vault_modify h w target finalContent
                 | _ \<Rightarrow> vault_create h w target finalContent))
       \<and> (CreateFolder p \<in> set (snd (saveFlashcards (recording_host rd ex look rej ai) s f c []))
            \<longleftrightarrow> p = folder \<and> folder \<noteq> [] \<and> ex folder = Inr False)
       \<and> (folder = [] \<or> \<not> isl (ex folder)
          \<longrightarrow> fst (saveFlashcards (recording_host rd ex look rej ai) s f c []) =
                rej (if look target = Some IsFile then Modify target finalContent
                     else Create target finalContent))
       \<and> (saveFlashcards (mem_host ma) s f c wa = (None, wb)
          \<longrightarrow> saveFlashcards (mem_host ma) s f c wb = (None, wb))"
proof -
  have gen: "saveFlashcards h s f c w =
      (if folder = [] then
         (case vault_getAbstractFileByPath h w target of
            Some IsFile \<Rightarrow> vault_modify h w target finalContent
          | _ \<Rightarrow> vault_create h w target finalContent)
       else (case adapter_exists h w folder of
               Inl e \<Rightarrow> (Some e, w)
             | Inr True \<Rightarrow>
                 (case vault_getAbstractFileByPath h w target of
                    Some IsFile \<Rightarrow> vault_modify h w target finalContent
                  | _ \<Rightarrow> vault_create h w target finalContent)
             | Inr False \<Rightarrow>
                 (case vault_getAbstractFileByPath h (snd (vault_createFolder h w folder)) target of
                    Some IsFile \<Rightarrow>
                      vault_modify h (snd (vault_createFolder h w folder)) target finalContent
                  | _ \<Rightarrow>
                      vault_create h (snd (vault_createFolder h w folder)) target finalContent)))"
    using assms
    by (auto simp add: saveFlashcards_def Let_def
             split: option.splits abstract_file.splits sum.splits bool.splits)
  have rec: "saveFlashcards (recording_host rd ex look rej ai) s f c [] =
      (let call = (if look target = Some IsFile then Modify target finalContent
                   else Create target finalContent)
       in if folder = [] then (rej call, [call])
          else (case ex folder of
                  Inl e \<Rightarrow> (Some e, [])
                | Inr True \<Rightarrow> (rej call, [call])
                | Inr False \<Rightarrow> (rej call, [CreateFolder folder, call])))"
    unfolding recording_save Let_def assms(1) [symmetric] assms(2) [symmetric]
    using assms(3) by (auto split: sum.splits bool.splits)
  have 5: "CreateFolder p \<in> set (snd (saveFlashcards (recording_host rd ex look rej ai) s f c []))
            \<longleftrightarrow> p = folder \<and> folder \<noteq> [] \<and> ex folder = Inr False"
    unfolding rec Let_def by (auto split: sum.splits bool.splits)
  have 6: "folder = [] \<or> \<not> isl (ex folder)
          \<Longrightarrow> fst (saveFlashcards (recording_host rd ex look rej ai) s f c []) =
                rej (if look target = Some IsFile then Modify target finalContent
                     else Create target finalContent)"
    unfolding rec Let_def by (auto split: sum.splits bool.splits)
  have 1: "folder \<noteq> [] \<and> adapter_exists h w folder = Inr False
            \<and> vault_createFolder h w folder = (r, w1)
          \<longrightarrow> saveFlashcards h s f c w =
                (case vault_getAbstractFileByPath h w1 target of
                   Some IsFile \<Rightarrow> vault_modify h w1 target finalContent
                 | _ \<Rightarrow> vault_create h w1 target finalContent)"
    by (simp add: gen split: option.splits abstract_file.splits)
  have 2: "folder \<noteq> [] \<and> adapter_exists h w folder = Inr True
          \<longrightarrow> saveFlashcards h s f c w =
                (case vault_getAbstractFileByPath h w target of
                   Some IsFile \<Rightarrow> vault_modify h w target finalContent
                 | _ \<Rightarrow> vault_create h w target finalContent)"
    by (simp add: gen)
  have 3: "folder \<noteq> [] \<and> adapter_exists h w folder = Inl e
          \<longrightarrow> saveFlashcards h s f c w = (Some e, w)"
    by (simp add: gen)
  have 4: "folder = []
          \<longrightarrow> saveFlashcards h s f c w =
                (case vault_getAbstractFileByPath h w target of
                   Some IsFile \<Rightarrow> vault_modify h w target finalContent
                 | _ \<Rightarrow> vault_create h w target finalContent)"
    by (simp add: gen)
  have 7: "saveFlashcards (mem_host ma) s f c wa = (None, wb)
          \<longrightarrow> saveFlashcards (mem_host ma) s f c wb = (None, wb)"
    using mem_host_save_twice by blast
  from 1 2 3 4 5 6 7 show ?thesis by blast
qed

theorem createFolder_rejection_dropped_witness:
  "saveFlashcards (denying_host None) (DEFAULT_SETTINGS []) fables ''Front :: Back'' vault0
     = vault_create (denying_host None) vault0 ''Flashcards/Books/Fables.md''
         ''#flashcards/Books/Fables\<newline>\<newline>Front :: Back''
   \<and> saveFlashcards (mem_host None) (DEFAULT_SETTINGS []) fables ''Front :: Back'' vault_old
     = vault_modify (mem_host None) vault_old ''Flashcards/Books/Fables.md''
         ''#flashcards/Books/Fables\<newline>\<newline>Front :: Back''
   \<and> saveFlashcards ((mem_host None) \<lparr> adapter_exists := (\<lambda>w p. Inl PermissionDenied) \<rparr>)
         (DEFAULT_SETTINGS []) fables ''Front :: Back'' vault0
     = (Some PermissionDenied, vault0)
   \<and> saveFlashcards (mem_host None) (DEFAULT_SETTINGS [] \<lparr> flashcardRoot := [] \<rparr>)
         \<lparr> path = ''Note.md'', basename = ''Note'', extension = ''md'' \<rparr> ''Front :: Back'' vault0
     = vault_create (mem_host None) vault0 ''/Note.md'' ''#flashcards/Note\<newline>\<newline>Front :: Back''
   \<and> CreateFolder ''Flashcards/Books''
       \<in> set (snd (saveFlashcards (fresh_recorder (\<lambda>call. Some AlreadyExists))
                      (DEFAULT_SETTINGS []) fables ''Front :: Back'' []))
   \<and> fst (saveFlashcards
            (fresh_recorder (\<lambda>call. case call of CreateFolder p \<Rightarrow> Some AlreadyExists | _ \<Rightarrow> None))
            (DEFAULT_SETTINGS []) fables ''Front :: Back'' [])
     = None
   \<and> saveFlashcards (mem_host None) (DEFAULT_SETTINGS []) fables ''Front :: Back''
         (snd (saveFlashcards (mem_host None) (DEFAULT_SETTINGS []) fables ''Front :: Back'' vault0))
     = saveFlashcards (mem_host None) (DEFAULT_SETTINGS []) fables ''Front :: Back'' vault0"
proof -
  let ?s = "DEFAULT_SETTINGS []"
  let ?sroot = "DEFAULT_SETTINGS [] \<lparr> flashcardRoot := [] \<rparr>"
  let ?note = "\<lparr> path = ''Note.md'', basename = ''Note'', extension = ''md'' \<rparr>"
  let ?hx = "(mem_host None) \<lparr> adapter_exists := (\<lambda>w p. Inl PermissionDenied) \<rparr>"
  have t: "strip_trailing_slash (flashcardRoot ?s) @ ''/'' @ path fables = ''Flashcards/Books/Fables.md''"
    by (simp add: eval_defs)
  have fo: "join_slash (butlast (split_slash ''Flashcards/Books/Fables.md'')) = ''Flashcards/Books''"
    by simp
  have fc: "''#'' @ flashcardTag ?s @ ''/'' @ strip_md (path fables) @ nl2
           @ (if trim (fileHeader ?s) = [] then [] else trim (fileHeader ?s) @ nl2) @ ''Front :: Back''
            = ''#flashcards/Books/Fables\<newline>\<newline>Front :: Back''"
    by (simp add: eval_defs)
  have t0: "strip_trailing_slash (flashcardRoot ?sroot) @ ''/'' @ path ?note = ''/Note.md''"
    by (simp add: eval_defs)
  have fo0: "join_slash (butlast (split_slash ''/Note.md'')) = []"
    by simp
  have fc0: "''#'' @ flashcardTag ?sroot @ ''/'' @ strip_md (path ?note) @ nl2
           @ (if trim (fileHeader ?sroot) = [] then [] else trim (fileHeader ?sroot) @ nl2) @ ''Front :: Back''
            = ''#flashcards/Note\<newline>\<newline>Front :: Back''"
    by (simp add: eval_defs)
  note a = createFolder_rejection_dropped [OF refl refl refl, where s = ?s and f = fables and c = "''Front :: Back''",
                   unfolded t fo fc]
  note b = createFolder_rejection_dropped [OF refl refl refl, where s = ?sroot and f = ?note and c = "''Front :: Back''",
                   unfolded t0 fo0 fc0]
  have 1: "saveFlashcards (denying_host None) ?s fables ''Front :: Back'' vault0
     = vault_create (denying_host None) vault0 ''Flashcards/Books/Fables.md''
         ''#flashcards/Books/Fables\<newline>\<newline>Front :: Back''"
    using a [where h = "denying_host None" and w = vault0 and r = "Some PermissionDenied"
                 and ?w1.0 = vault0]
    by (simp add: eval_defs)
  have 2: "saveFlashcards (mem_host None) ?s fables ''Front :: Back'' vault_old
     = vault_modify (mem_host None) vault_old ''Flashcards/Books/Fables.md''
         ''#flashcards/Books/Fables\<newline>\<newline>Front :: Back''"
    using a [where h = "mem_host None" and w = vault_old]
    by (simp add: eval_defs)
  have 3: "saveFlashcards ?hx ?s fables ''Front :: Back'' vault0 = (Some PermissionDenied, vault0)"
    using a [where h = ?hx and w = vault0 and e = PermissionDenied]
    by (simp add: eval_defs)
  have 4: "saveFlashcards (mem_host None) ?sroot ?note ''Front :: Back'' vault0
     = vault_create (mem_host None) vault0 ''/Note.md'' ''#flashcards/Note\<newline>\<newline>Front :: Back''"
    using b [where h = "mem_host None" and w = vault0]
    by (simp add: eval_defs)
  have 5: "CreateFolder ''Flashcards/Books''
       \<in> set (snd (saveFlashcards (fresh_recorder (\<lambda>call. Some AlreadyExists))
                      ?s fables ''Front :: Back'' []))"
    using a [where p = "''Flashcards/Books''" and rd = "\<lambda>p. Inr ''The fox and the grapes.''"
                 and ex = "\<lambda>p. Inr False" and look = "\<lambda>p. None"
                 and rej = "\<lambda>call. Some AlreadyExists"
                 and ai = "Some (fixed_service [] (JString ''Front :: Back''))"
                 and h = "mem_host None" and w = vault0 and r = None and ?w1.0 = vault0
                 and e = NotFound]
    by (simp add: fresh_recorder_def)
  have 6: "fst (saveFlashcards
            (fresh_recorder (\<lambda>call. case call of CreateFolder p \<Rightarrow> Some AlreadyExists | _ \<Rightarrow> None))
            ?s fables ''Front :: Back'' []) = None"
    using a [where rd = "\<lambda>p. Inr ''The fox and the grapes.''"
                 and ex = "\<lambda>p. Inr False" and look = "\<lambda>p. None"
                 and rej = "\<lambda>call. case call of CreateFolder p \<Rightarrow> Some AlreadyExists
                                          | _ \<Rightarrow> None"
                 and ai = "Some (fixed_service [] (JString ''Front :: Back''))"
                 and h = "mem_host None" and w = vault0 and r = None and ?w1.0 = vault0
                 and e = NotFound]
    by (simp add: fresh_recorder_def)
  have e: "saveFlashcards (mem_host None) ?s fables ''Front :: Back'' vault0
      = (None, vault0 (''Flashcards/Books'' \<mapsto> Folder,
                       ''Flashcards/Books/Fables.md'' \<mapsto>
                          File ''#flashcards/Books/Fables\<newline>\<newline>Front :: Back''))"
    by (simp add: eval_defs)
  have 7: "saveFlashcards (mem_host None) ?s fables ''Front :: Back''
         (snd (saveFlashcards (mem_host None) ?s fables ''Front :: Back'' vault0))
     = saveFlashcards (mem_host None) ?s fables ''Front :: Back'' vault0"
    using a [where ma = None and wa = vault0, THEN conjunct2, THEN conjunct2, THEN conjunct2,
             THEN conjunct2, THEN conjunct2, THEN conjunct2] e
    by simp
  from 1 2 3 4 5 6 7 show ?thesis by blast
qed

text \<open>
  Claim C10: every text the commit step hands to the store starts with the marker \<open>#\<close>,
  tag label, slash, whatever the store answers, and a commit that is not rejected has
  written exactly one such text; and when that text is read back from a store that keeps
  its contract, a run on the artifact under the same tag label ends in \<open>Skipped\<close> without
  a prompt submitted and without a change of the store: at the check of the path when
  the path is under the output root or excluded, and at the check of the content
  otherwise. The witness commits an artifact and runs on it after the output root was
  changed.
\<close>

theorem artifact_is_skipped:
  "(store_contract h
      \<and> saveFlashcards h s f clean w0 = (None, w1)
      \<and> path g = strip_trailing_slash (flashcardRoot s) @ ''/'' @ path f
      \<and> flashcardTag s' = flashcardTag s
    \<longrightarrow> (\<exists>rest. vault_read h w1 (path g) = Inr ((''#'' @ flashcardTag s @ ''/'') @ rest))
      \<and> generateFlashcards rv h s' g w1 =
           (Skipped (if shouldSkipFile s' g then ExcludedOrRoot else EmptyOrAlreadyFlashcard),
            [], w1))
   \<and> (\<forall>t \<in> set (map snd (written
          (snd (saveFlashcards (recording_host rd ex look rej ai) s f clean [])))).
        startsWith t (''#'' @ flashcardTag s @ ''/''))
   \<and> (fst (saveFlashcards (recording_host rd ex look rej ai) s f clean []) = None
    \<longrightarrow> (\<exists>p rest. written (snd (saveFlashcards (recording_host rd ex look rej ai) s f clean []))
                     = [(p, (''#'' @ flashcardTag s @ ''/'') @ rest)]))"
proof -
  let ?marker = "''#'' @ flashcardTag s @ ''/''"
  let ?rec = "saveFlashcards (recording_host rd ex look rej ai) s f clean []"
  have skip: "(\<exists>rest. vault_read h w1 (path g) = Inr (?marker @ rest))
      \<and> generateFlashcards rv h s' g w1 =
           (Skipped (if shouldSkipFile s' g then ExcludedOrRoot else EmptyOrAlreadyFlashcard),
            [], w1)"
    if c: "store_contract h" and sv: "saveFlashcards h s f clean w0 = (None, w1)"
      and pg: "path g = strip_trailing_slash (flashcardRoot s) @ ''/'' @ path f"
      and tg: "flashcardTag s' = flashcardTag s"
  proof -
    from saved_content [OF c sv] pg obtain rest where
      rd: "vault_read h w1 (path g) = Inr (?marker @ rest)"
      by simp
    have "startsWith (trim (?marker @ rest)) ?marker"
      by (rule trim_keeps_prefix) (simp_all add: is_space_def)
    then have "generateFlashcards rv h s' g w1 =
           (Skipped (if shouldSkipFile s' g then ExcludedOrRoot else EmptyOrAlreadyFlashcard),
            [], w1)"
      using rd tg by (simp add: generateFlashcards_def Let_def)
    with rd show ?thesis by blast
  qed
  have cases: "(\<exists>e. ?rec = (Some e, []))
      \<or> (\<exists>r calls p rest. ?rec = (r, calls) \<and> written calls = [(p, ?marker @ rest)])"
    unfolding recording_save Let_def
    by (auto split: sum.splits bool.splits)
  have all: "\<forall>t \<in> set (map snd (written (snd ?rec))). startsWith t ?marker"
    using cases by (auto simp: startsWith_def)
  have one: "fst ?rec = None \<longrightarrow> (\<exists>p rest. written (snd ?rec) = [(p, ?marker @ rest)])"
    using cases by auto
  from skip all one show ?thesis by blast
qed

theorem artifact_is_skipped_witness:
  "generateFlashcards Without_tag_step (answering_host (JString ''Front :: Back''))
     (DEFAULT_SETTINGS [] \<lparr> flashcardRoot := ''Cards'' \<rparr>)
     \<lparr> path = ''Flashcards/Books/Fables.md'', basename = ''Fables'', extension = ''md'' \<rparr>
     (snd (saveFlashcards (answering_host (JString ''Front :: Back'')) (DEFAULT_SETTINGS [])
             fables ''Front :: Back'' vault0))
   = (Skipped EmptyOrAlreadyFlashcard, [],
      snd (saveFlashcards (answering_host (JString ''Front :: Back'')) (DEFAULT_SETTINGS [])
             fables ''Front :: Back'' vault0))
   \<and> snd (saveFlashcards (answering_host (JString ''Front :: Back'')) (DEFAULT_SETTINGS [])
             fables ''Front :: Back'' vault0) ''Flashcards/Books/Fables.md''
     = Some (File ''#flashcards/Books/Fables\<newline>\<newline>Front :: Back'')
   \<and> written (snd (saveFlashcards (fresh_recorder (\<lambda>call. None)) (DEFAULT_SETTINGS [])
                      fables ''Front :: Back'' []))
     = [(''Flashcards/Books/Fables.md'', ''#flashcards/Books/Fables\<newline>\<newline>Front :: Back'')]
   \<and> startsWith ''#flashcards/Books/Fables\<newline>\<newline>Front :: Back'' ''#flashcards/''"
proof -
  let ?h = "answering_host (JString ''Front :: Back'')"
  let ?g = "\<lparr> path = ''Flashcards/Books/Fables.md'', basename = ''Fables'', extension = ''md'' \<rparr>"
  let ?w1 = "vault0 (''Flashcards/Books'' \<mapsto> Folder,
              ''Flashcards/Books/Fables.md'' \<mapsto>
                 File ''#flashcards/Books/Fables\<newline>\<newline>Front :: Back'')"
  let ?sd = "DEFAULT_SETTINGS [] \<lparr> flashcardRoot := ''Cards'' \<rparr>"
  have c: "store_contract ?h"
    unfolding answering_host_def by (rule mem_host_contract)
  have e: "saveFlashcards ?h (DEFAULT_SETTINGS []) fables ''Front :: Back'' vault0 = (None, ?w1)"
    by (simp add: eval_defs)
  have p: "path ?g = strip_trailing_slash (flashcardRoot (DEFAULT_SETTINGS [])) @ ''/'' @ path fables"
    by (simp add: eval_defs)
  have t: "flashcardTag ?sd = flashcardTag (DEFAULT_SETTINGS [])"
    by (simp add: DEFAULT_SETTINGS_def)
  have n: "\<not> shouldSkipFile ?sd ?g"
    by (simp add: eval_defs)
  have m: "''#'' @ flashcardTag (DEFAULT_SETTINGS []) @ ''/'' = ''#flashcards/''"
    by (simp add: DEFAULT_SETTINGS_def)
  have r: "written (snd (saveFlashcards (fresh_recorder (\<lambda>call. None)) (DEFAULT_SETTINGS [])
                      fables ''Front :: Back'' []))
     = [(''Flashcards/Books/Fables.md'', ''#flashcards/Books/Fables\<newline>\<newline>Front :: Back'')]"
    by (simp add: eval_defs)
  note inst = artifact_is_skipped [where h = ?h and s = "DEFAULT_SETTINGS []" and f = fables
                 and clean = "''Front :: Back''" and ?w0.0 = vault0 and ?w1.0 = ?w1 and g = ?g
                 and s' = ?sd and rv = Without_tag_step
                 and rd = "\<lambda>p. Inr ''The fox and the grapes.''" and ex = "\<lambda>p. Inr False"
                 and look = "\<lambda>p. None" and rej = "\<lambda>call. None"
                 and ai = "Some (fixed_service [] (JString ''Front :: Back''))",
               folded fresh_recorder_def, unfolded m]
  from inst c e p t n have 1: "generateFlashcards Without_tag_step ?h ?sd ?g ?w1
      = (Skipped EmptyOrAlreadyFlashcard, [], ?w1)"
    by simp
  from inst r have 2: "startsWith ''#flashcards/Books/Fables\<newline>\<newline>Front :: Back'' ''#flashcards/''"
    by simp
  from 1 2 r show ?thesis
    by (simp add: e)
qed

end
